theory Spec2Isabelle
  imports Main "HOL-Library.Word" "HOL-Library.Sublist"
begin

unbundle bit_operations_syntax

section \<open>Shared vocabulary\<close>

text \<open>
  Both managers write to the client's logger and neither reads it back. A log call is
  kept as an entry of the manager's effect list: its level and the fixed part of its text.
\<close>

datatype LogLevel = DEBUG | INFO | WARN | ERROR

section \<open>REST dispatcher: \<^verbatim>\<open>src/rest/RESTManager.ts\<close>\<close>

subsection \<open>Data\<close>

text \<open>
  \<^verbatim>\<open>RequestOptions\<close> as a caller passes it to \<^verbatim>\<open>request\<close>: \<^verbatim>\<open>method\<close>, \<^verbatim>\<open>auth\<close> and
  \<^verbatim>\<open>versioned\<close> may be left out (\<open>None\<close>); body, headers, files and reason only shape the
  HTTP message and are kept together as one opaque string.
\<close>

record RequestOptions =
  opt_method :: "string option"
  opt_auth :: "bool option"
  opt_versioned :: "bool option"
  opt_content :: string

text \<open>
  \<^verbatim>\<open>QueuedRequest\<close>, with the options after the defaults of \<^verbatim>\<open>request\<close> were applied. The
  pair \<^verbatim>\<open>resolve\<close>/\<^verbatim>\<open>reject\<close> is the identity of the promise the caller holds: a number.
\<close>

record QueuedRequest =
  endpoint :: string
  req_method :: string
  req_auth :: bool
  req_versioned :: bool
  req_content :: string
  promise :: nat
  retries :: nat

record RateLimitData =
  limit :: int
  remaining :: int
  reset :: int
  resetAfter :: int
  bucket :: "string option"
  global :: bool

text \<open>
  A value as \<^verbatim>\<open>response.json()\<close> gives it. The dispatcher does two things with a number
  it finds there: it tests it for truthiness and it hands it to \<^verbatim>\<open>Number.parseInt\<close>,
  which reads the text \<^verbatim>\<open>String\<close> gives for it. So a number is kept as that text:
  \<^verbatim>\<open>0.5\<close> as \<open>''0.5''\<close>, \<^verbatim>\<open>1e21\<close> as \<open>''1e+21''\<close>, zero as \<open>''0''\<close>. In an object a key that
  occurs twice has its last value.
\<close>

datatype Json =
    JNull
  | JBool bool
  | JNumber string
  | JString string
  | JArray "Json list"
  | JObject "(string \<times> Json) list"

text \<open>
  What the dispatcher reads of a \<^verbatim>\<open>fetch\<close> response before it reads the body: the status
  and its text, the content type, and the rate-limit headers (a numeric header is \<open>None\<close>
  when it is absent or empty, else the integer \<^verbatim>\<open>Number.parseInt\<close> reads; headers that
  are not numerals are outside this type).
\<close>

record Response =
  status :: nat
  statusText :: string
  content_type :: "string option"
  x_ratelimit_limit :: "int option"
  x_ratelimit_remaining :: "int option"
  x_ratelimit_reset :: "int option"
  x_ratelimit_reset_after :: "int option"
  x_ratelimit_bucket :: "string option"
  x_ratelimit_global :: "string option"

text \<open>
  \<^verbatim>\<open>AstriumAPIError\<close>: its \<^verbatim>\<open>status\<close> and its \<^verbatim>\<open>requestData\<close>, \<open>None\<close> when the constructor
  got none. The message is not read by the dispatcher and is left out.
\<close>

datatype AstriumAPIError = APIError (err_status: nat) (err_requestData: "Json option")

text \<open>
  \<^verbatim>\<open>processQueue\<close> is an \<^verbatim>\<open>async\<close> function: it runs until an \<^verbatim>\<open>await\<close>, and goes on
  when the awaited timer, response or body arrives, other callbacks running in between.
  An activation of \<^verbatim>\<open>processQueue\<close> is a worker; its program counter says which \<^verbatim>\<open>await\<close>
  it is suspended at, with the local variables alive there: the request taken from the
  queue and, while the body of an error response is read, that response. The three
  \<^verbatim>\<open>await\<close>s on a body are the ones of lines 216, 233 and 237.
\<close>

datatype PC =
    LoopHead
  | AwaitGlobalSleep QueuedRequest
  | AwaitBucketSleep QueuedRequest
  | AwaitFetch QueuedRequest
  | AwaitErrorBody QueuedRequest Response
  | AwaitJson QueuedRequest
  | AwaitText QueuedRequest
  | AwaitRetrySleep QueuedRequest
  | Finished

record Worker =
  wbucket :: string
  wpc :: PC

text \<open>
  What the dispatcher does to the world: it logs, calls \<^verbatim>\<open>fetch\<close>, calls \<^verbatim>\<open>sleep\<close> with a
  number of milliseconds (\<open>None\<close> for \<^verbatim>\<open>NaN\<close>), and settles the promise of a request, with
  the value of the body or with an error. When the timer of a \<^verbatim>\<open>sleep\<close> fires is not the
  dispatcher's to decide.
\<close>

datatype RestEffect =
    LogR LogLevel string
  | Fetch QueuedRequest string
  | Sleep "int option"
  | Resolve QueuedRequest Json
  | Reject QueuedRequest AstriumAPIError

text \<open>
  The fields of the class, then what the class leaves to the runtime: the activations of
  \<^verbatim>\<open>processQueue\<close>, the clock \<^verbatim>\<open>Date.now()\<close> in milliseconds, the number of promises
  handed out, and the effects so far.
\<close>

record RESTManager =
  globalReset :: int
  globalRemaining :: int
  buckets :: "string \<rightharpoonup> RateLimitData"
  queues :: "string \<rightharpoonup> QueuedRequest list"
  processing :: "string set"
  workers :: "Worker list"
  now :: int
  nextPromise :: nat
  effects :: "RestEffect list"

record RESTOptions =
  rateLimitRetryLimit :: nat

definition newRESTManager :: "int \<Rightarrow> RESTManager" where
  "newRESTManager t0 =
     \<lparr>globalReset = 0, globalRemaining = 1, buckets = Map.empty, queues = Map.empty,
      processing = {}, workers = [], now = t0, nextPromise = 0, effects = []\<rparr>"

subsection \<open>JavaScript values\<close>

text \<open>
  Truthiness, and \<^verbatim>\<open>String\<close> of a value: an array prints its elements separated by commas,
  \<^verbatim>\<open>null\<close> elements as nothing; an object prints as \<^verbatim>\<open>[object Object]\<close>.
\<close>

fun truthyJ :: "Json \<Rightarrow> bool" where
  "truthyJ JNull = False"
| "truthyJ (JBool b) = b"
| "truthyJ (JNumber s) = (s \<noteq> ''0'' \<and> s \<noteq> ''NaN'')"
| "truthyJ (JString s) = (s \<noteq> [])"
| "truthyJ (JArray xs) = True"
| "truthyJ (JObject kvs) = True"

fun toStringJ :: "Json \<Rightarrow> string" and joinJ :: "Json list \<Rightarrow> string" where
  "toStringJ JNull = ''null''"
| "toStringJ (JBool b) = (if b then ''true'' else ''false'')"
| "toStringJ (JNumber s) = s"
| "toStringJ (JString s) = s"
| "toStringJ (JArray xs) = joinJ xs"
| "toStringJ (JObject kvs) = ''[object Object]''"
| "joinJ [] = []"
| "joinJ (x # xs) =
     (if x = JNull then [] else toStringJ x) @ (if xs = [] then [] else CHR '','' # joinJ xs)"

text \<open>
  Reading a property of a value that is not \<^verbatim>\<open>null\<close>: \<open>None\<close> is \<^verbatim>\<open>undefined\<close>. The two
  properties the dispatcher reads, \<^verbatim>\<open>message\<close> and \<^verbatim>\<open>retry_after\<close>, are properties of objects
  only.
\<close>

definition getProp :: "string \<Rightarrow> Json \<Rightarrow> Json option" where
  "getProp k v = (case v of JObject kvs \<Rightarrow> map_of (rev kvs) k | _ \<Rightarrow> None)"

text \<open>
  \<^verbatim>\<open>Number.parseInt\<close> of a string, without a radix: white space is skipped, then a sign,
  then \<^verbatim>\<open>0x\<close> announces hexadecimal digits; the digits up to the first character that is
  none are read, and a string with no digit there gives \<^verbatim>\<open>NaN\<close> (\<open>None\<close>). The result is
  the integer the digits denote, which JavaScript holds exactly below \<open>2 ^ 53\<close>.
\<close>

definition whitespace :: "char \<Rightarrow> bool" where
  "whitespace c = (c \<in> set [CHR '' '', CHR 0x09, CHR 0x0A, CHR 0x0B, CHR 0x0C, CHR 0x0D])"

definition digit :: "char \<Rightarrow> nat option" where
  "digit = map_of
     [(CHR ''0'', 0), (CHR ''1'', 1), (CHR ''2'', 2), (CHR ''3'', 3), (CHR ''4'', 4),
      (CHR ''5'', 5), (CHR ''6'', 6), (CHR ''7'', 7), (CHR ''8'', 8), (CHR ''9'', 9)]"

definition hex_digit :: "char \<Rightarrow> nat option" where
  "hex_digit c =
     (case digit c of
        Some d \<Rightarrow> Some d
      | None \<Rightarrow> map_of
          [(CHR ''a'', 10), (CHR ''b'', 11), (CHR ''c'', 12), (CHR ''d'', 13), (CHR ''e'', 14),
           (CHR ''f'', 15), (CHR ''A'', 10), (CHR ''B'', 11), (CHR ''C'', 12), (CHR ''D'', 13),
           (CHR ''E'', 14), (CHR ''F'', 15)] c)"

text \<open>The number read so far, \<open>None\<close> before the first digit.\<close>

fun digits :: "(char \<Rightarrow> nat option) \<Rightarrow> nat \<Rightarrow> nat option \<Rightarrow> string \<Rightarrow> nat option" where
  "digits table radix n [] = n"
| "digits table radix n (c # cs) =
     (case table c of
        None \<Rightarrow> n
      | Some d \<Rightarrow> digits table radix (Some ((case n of None \<Rightarrow> 0 | Some k \<Rightarrow> k) * radix + d)) cs)"

definition unsigned :: "string \<Rightarrow> nat option" where
  "unsigned s =
     (if take 2 s = ''0x'' \<or> take 2 s = ''0X'' then digits hex_digit 16 None (drop 2 s)
      else digits digit 10 None s)"

definition parseInt :: "string \<Rightarrow> int option" where
  "parseInt s =
     (let s1 = dropWhile whitespace s
      in if take 1 s1 = ''-'' then map_option (\<lambda>n. - int n) (unsigned (drop 1 s1))
         else if take 1 s1 = ''+'' then map_option int (unsigned (drop 1 s1))
         else map_option int (unsigned s1))"

subsection \<open>Pure helpers\<close>

definition getBucketId :: "string \<Rightarrow> string \<Rightarrow> string" where
  "getBucketId ep m = m @ '':'' @ takeWhile (\<lambda>c. c \<noteq> CHR ''?'') ep"

definition APIBaseURL :: string where
  "APIBaseURL = ''https://discord.com/api/v10''"

definition buildURL :: "string \<Rightarrow> bool \<Rightarrow> string" where
  "buildURL ep versioned =
     (if versioned then APIBaseURL else ''https://discord.com/api'') @
     (case ep of c # _ \<Rightarrow> (if c = CHR ''/'' then ep else ''/'' @ ep) | [] \<Rightarrow> ''/'' @ ep)"

definition ok :: "Response \<Rightarrow> bool" where
  "ok response = (200 \<le> status response \<and> status response \<le> 299)"

text \<open>\<^verbatim>\<open>String.prototype.includes\<close>.\<close>

fun includesJ :: "string \<Rightarrow> string \<Rightarrow> bool" where
  "includesJ [] pat = (pat = [])"
| "includesJ (c # cs) pat = (prefix pat (c # cs) \<or> includesJ cs pat)"

text \<open>Line 232: \<^verbatim>\<open>contentType?.includes("application/json")\<close>.\<close>

definition announces_json :: "Response \<Rightarrow> bool" where
  "announces_json response =
     (case content_type response of None \<Rightarrow> False | Some ct \<Rightarrow> includesJ ct ''application/json'')"

definition logR :: "LogLevel \<Rightarrow> string \<Rightarrow> RESTManager \<Rightarrow> RESTManager" where
  "logR lvl msg m = m\<lparr>effects := effects m @ [LogR lvl msg]\<rparr>"

text \<open>\<^verbatim>\<open>sleep\<close> (lines 298-300) up to the promise it returns.\<close>

definition sleep :: "int option \<Rightarrow> RESTManager \<Rightarrow> RESTManager" where
  "sleep ms m = m\<lparr>effects := effects m @ [Sleep ms]\<rparr>"

definition queue_of :: "RESTManager \<Rightarrow> string \<Rightarrow> QueuedRequest list" where
  "queue_of m b = (case queues m b of None \<Rightarrow> [] | Some q \<Rightarrow> q)"

definition unshift :: "string \<Rightarrow> QueuedRequest \<Rightarrow> RESTManager \<Rightarrow> RESTManager" where
  "unshift b r m = m\<lparr>queues := (queues m)(b \<mapsto> r # queue_of m b)\<rparr>"

definition setPC :: "nat \<Rightarrow> PC \<Rightarrow> RESTManager \<Rightarrow> RESTManager" where
  "setPC i pc m = m\<lparr>workers := (workers m)[i := (workers m ! i)\<lparr>wpc := pc\<rparr>]\<rparr>"

subsection \<open>\<^verbatim>\<open>updateRateLimits\<close> (lines 253-276)\<close>

definition updateRateLimits :: "Response \<Rightarrow> string \<Rightarrow> RESTManager \<Rightarrow> RESTManager" where
  "updateRateLimits response bucketId m =
     (let lim = (case x_ratelimit_limit response of None \<Rightarrow> 1 | Some n \<Rightarrow> n);
          rem = (case x_ratelimit_remaining response of None \<Rightarrow> 1 | Some n \<Rightarrow> n);
          rst = (case x_ratelimit_reset response of None \<Rightarrow> 0 | Some n \<Rightarrow> n);
          rsa = (case x_ratelimit_reset_after response of None \<Rightarrow> 0 | Some n \<Rightarrow> n);
          bkt = x_ratelimit_bucket response;
          glb = (x_ratelimit_global response = Some ''true'');
          m1 = (if glb
                then m\<lparr>globalRemaining := rem, globalReset := now m + rsa * 1000\<rparr>
                else m\<lparr>buckets := (buckets m)(bucketId \<mapsto>
                        \<lparr>limit = lim, remaining = rem, reset = rst, resetAfter = rsa,
                         bucket = bkt, global = False\<rparr>)\<rparr>)
      in logR DEBUG ''Rate limit updated'' m1)"

subsection \<open>\<^verbatim>\<open>processQueue\<close> (lines 93-147), cut at its \<^verbatim>\<open>await\<close>s\<close>

text \<open>
  \<open>start_fetch\<close>: \<^verbatim>\<open>executeRequest\<close> up to \<^verbatim>\<open>await fetch(...)\<close> (lines 152-206). The abort
  timer of line 198 makes the fetch fail later; that is the event \<open>FetchSettled i None\<close>.
\<close>

definition start_fetch :: "nat \<Rightarrow> QueuedRequest \<Rightarrow> RESTManager \<Rightarrow> RESTManager" where
  "start_fetch i r m =
     setPC i (AwaitFetch r)
       (m\<lparr>effects := effects m @
           [LogR DEBUG ''request'', Fetch r (buildURL (endpoint r) (req_versioned r))]\<rparr>)"

text \<open>\<open>bucket_check\<close>: lines 112-118, then the request is executed.\<close>

definition bucket_check :: "nat \<Rightarrow> QueuedRequest \<Rightarrow> RESTManager \<Rightarrow> RESTManager" where
  "bucket_check i r m =
     (case buckets m (wbucket (workers m ! i)) of
        None \<Rightarrow> start_fetch i r m
      | Some b \<Rightarrow>
          if remaining b \<le> 0 \<and> now m < reset b * 1000
          then (let delay = reset b * 1000 - now m
                in setPC i (AwaitBucketSleep r) (sleep (Some delay) (logR DEBUG ''Rate limit hit'' m)))
          else start_fetch i r m)"

text \<open>
  \<open>loop_head\<close>: the loop condition of line 101, \<^verbatim>\<open>queue.shift()\<close>, the global check of
  lines 105-110; when the queue is empty, line 146.
\<close>

definition loop_head :: "nat \<Rightarrow> RESTManager \<Rightarrow> RESTManager" where
  "loop_head i m =
     (let b = wbucket (workers m ! i)
      in case queue_of m b of
           [] \<Rightarrow> setPC i Finished (m\<lparr>processing := processing m - {b}\<rparr>)
         | r # rest \<Rightarrow>
             (let m1 = m\<lparr>queues := (queues m)(b \<mapsto> rest)\<rparr>
              in if globalRemaining m1 \<le> 0 \<and> now m1 < globalReset m1
                 then (let delay = globalReset m1 - now m1
                       in setPC i (AwaitGlobalSleep r)
                            (sleep (Some delay) (logR WARN ''Global rate limit hit'' m1)))
                 else bucket_check i r m1))"

text \<open>
  \<open>handle_error\<close>: the \<^verbatim>\<open>catch\<close> block, lines 122-143. Every error \<^verbatim>\<open>executeRequest\<close>
  throws is an \<^verbatim>\<open>AstriumAPIError\<close>. Line 125 reads \<^verbatim>\<open>retry_after\<close> off the error's data,
  takes \<^verbatim>\<open>"1000"\<close> when that is \<^verbatim>\<open>undefined\<close> or falsy, and parses the text of what it has.
\<close>

definition retryAfter :: "AstriumAPIError \<Rightarrow> int option" where
  "retryAfter err =
     (let found = (case err_requestData err of None \<Rightarrow> None | Some v \<Rightarrow> getProp ''retry_after'' v)
      in parseInt (toStringJ (case found of
                                None \<Rightarrow> JString ''1000''
                              | Some v \<Rightarrow> if truthyJ v then v else JString ''1000'')))"

definition handle_error ::
  "RESTOptions \<Rightarrow> nat \<Rightarrow> QueuedRequest \<Rightarrow> AstriumAPIError \<Rightarrow> RESTManager \<Rightarrow> RESTManager" where
  "handle_error cfg i r err m =
     (if err_status err = 429
      then setPC i (AwaitRetrySleep r)
             (sleep (retryAfter err) (logR WARN ''Rate limited, retrying'' m))
      else if retries r < rateLimitRetryLimit cfg
      then (let r' = r\<lparr>retries := retries r + 1\<rparr>
            in loop_head i (unshift (wbucket (workers m ! i)) r' (logR DEBUG ''Retrying request'' m)))
      else loop_head i (m\<lparr>effects := effects m @ [Reject r err]\<rparr>))"

text \<open>Line 121, then the loop goes on.\<close>

definition resolve :: "nat \<Rightarrow> QueuedRequest \<Rightarrow> Json \<Rightarrow> RESTManager \<Rightarrow> RESTManager" where
  "resolve i r v m = loop_head i (m\<lparr>effects := effects m @ [Resolve r v]\<rparr>)"

definition processQueue :: "string \<Rightarrow> RESTManager \<Rightarrow> RESTManager" where
  "processQueue bucketId m =
     (if bucketId \<in> processing m then m
      else case queues m bucketId of
             None \<Rightarrow> m
           | Some q \<Rightarrow>
               if q = [] then m
               else loop_head (length (workers m))
                      (m\<lparr>processing := insert bucketId (processing m),
                         workers := workers m @ [\<lparr>wbucket = bucketId, wpc = LoopHead\<rparr>]\<rparr>))"

subsection \<open>\<^verbatim>\<open>queueRequest\<close> (lines 79-88) and \<^verbatim>\<open>request\<close> (lines 57-74)\<close>

definition queueRequest :: "QueuedRequest \<Rightarrow> RESTManager \<Rightarrow> RESTManager" where
  "queueRequest request m =
     (let bucketId = getBucketId (endpoint request) (req_method request);
          m1 = (if queues m bucketId = None then m\<lparr>queues := (queues m)(bucketId \<mapsto> [])\<rparr> else m);
          m2 = m1\<lparr>queues := (queues m1)(bucketId \<mapsto> queue_of m1 bucketId @ [request])\<rparr>
      in processQueue bucketId m2)"

text \<open>The entry \<^verbatim>\<open>request\<close> builds (lines 59-70), for the promise numbered \<open>n\<close>.\<close>

definition queued :: "string \<Rightarrow> RequestOptions \<Rightarrow> nat \<Rightarrow> QueuedRequest" where
  "queued ep options n =
     \<lparr>endpoint = ep,
      req_method = (case opt_method options of None \<Rightarrow> ''GET'' | Some x \<Rightarrow> x),
      req_auth = (case opt_auth options of None \<Rightarrow> True | Some x \<Rightarrow> x),
      req_versioned = (case opt_versioned options of None \<Rightarrow> True | Some x \<Rightarrow> x),
      req_content = opt_content options,
      promise = n,
      retries = 0\<rparr>"

definition request :: "string \<Rightarrow> RequestOptions \<Rightarrow> RESTManager \<Rightarrow> RESTManager" where
  "request ep options m =
     queueRequest (queued ep options (nextPromise m)) (m\<lparr>nextPromise := Suc (nextPromise m)\<rparr>)"

subsection \<open>The event loop\<close>

text \<open>
  What can happen to the dispatcher: a collaborator calls \<^verbatim>\<open>request\<close>; time passes; the
  timer of a sleeping worker fires, when the runtime sees fit; the \<^verbatim>\<open>fetch\<close> of a worker
  settles, with a response or, on a network error or the abort, without; a pending
  \<^verbatim>\<open>response.json()\<close> or \<^verbatim>\<open>response.text()\<close> settles, with the value read or, when the body
  cannot be read or parsed, without. Workers are numbered in the order of their
  activation.
\<close>

datatype RestEvent =
    Request string RequestOptions
  | Advance nat
  | TimerFired nat
  | FetchSettled nat "Response option"
  | JsonRead nat "Json option"
  | TextRead nat "string option"

text \<open>
  The code after the three \<^verbatim>\<open>await this.sleep(...)\<close>: lines 112-120 after the global
  sleep, line 120 after the bucket's, lines 129-130 after the one of a 429. Nothing is
  tested again before the request is executed.
\<close>

definition timer_fired :: "nat \<Rightarrow> RESTManager \<Rightarrow> RESTManager" where
  "timer_fired i m =
     (case wpc (workers m ! i) of
        AwaitGlobalSleep r \<Rightarrow> bucket_check i r m
      | AwaitBucketSleep r \<Rightarrow> start_fetch i r m
      | AwaitRetrySleep r \<Rightarrow> loop_head i (unshift (wbucket (workers m ! i)) r m)
      | _ \<Rightarrow> m)"

text \<open>
  Lines 201-238 and 239-247, when the fetch has settled. A failed fetch throws an error
  of status 0. A response updates the rate limits under the key derived from the
  request; then an error response has its body read as JSON (line 216), a success its
  body read as JSON (line 233) or as text (line 237), and a 204 that does not announce
  JSON returns \<^verbatim>\<open>null\<close> at once.
\<close>

definition fetch_settled ::
  "RESTOptions \<Rightarrow> nat \<Rightarrow> Response option \<Rightarrow> RESTManager \<Rightarrow> RESTManager" where
  "fetch_settled cfg i res m =
     (case wpc (workers m ! i) of
        AwaitFetch r \<Rightarrow>
          (case res of
             None \<Rightarrow> handle_error cfg i r (APIError 0 None) m
           | Some response \<Rightarrow>
               (let m1 = updateRateLimits response (getBucketId (endpoint r) (req_method r)) m
                in if \<not> ok response then setPC i (AwaitErrorBody r response) m1
                   else if announces_json response then setPC i (AwaitJson r) m1
                   else if status response = 204 then resolve i r JNull m1
                   else setPC i (AwaitText r) m1))
      | _ \<Rightarrow> m)"

text \<open>
  Lines 213-228, when the \<^verbatim>\<open>response.json()\<close> of an error response has settled: the error
  that is thrown. A body that cannot be read is replaced by the status text; a body that
  is \<^verbatim>\<open>null\<close> makes \<^verbatim>\<open>errorData.message\<close> throw a \<^verbatim>\<open>TypeError\<close>, which line 246 wraps
  into an error of status 0; any other body is the data of an error with the status of the
  response.
\<close>

definition thrown :: "Response \<Rightarrow> Json option \<Rightarrow> AstriumAPIError" where
  "thrown response body =
     (case body of
        None \<Rightarrow>
          APIError (status response) (Some (JObject [(''message'', JString (statusText response))]))
      | Some errorData \<Rightarrow>
          if errorData = JNull then APIError 0 None
          else APIError (status response) (Some errorData))"

text \<open>
  And line 233, when the \<^verbatim>\<open>response.json()\<close> of a success has settled: the value is
  returned, and a body that cannot be read is wrapped by line 246.
\<close>

definition json_read :: "RESTOptions \<Rightarrow> nat \<Rightarrow> Json option \<Rightarrow> RESTManager \<Rightarrow> RESTManager" where
  "json_read cfg i res m =
     (case wpc (workers m ! i) of
        AwaitErrorBody r response \<Rightarrow> handle_error cfg i r (thrown response res) m
      | AwaitJson r \<Rightarrow>
          (case res of
             None \<Rightarrow> handle_error cfg i r (APIError 0 None) m
           | Some v \<Rightarrow> resolve i r v m)
      | _ \<Rightarrow> m)"

text \<open>Line 237, when \<^verbatim>\<open>response.text()\<close> has settled.\<close>

definition text_read :: "RESTOptions \<Rightarrow> nat \<Rightarrow> string option \<Rightarrow> RESTManager \<Rightarrow> RESTManager" where
  "text_read cfg i res m =
     (case wpc (workers m ! i) of
        AwaitText r \<Rightarrow>
          (case res of
             None \<Rightarrow> handle_error cfg i r (APIError 0 None) m
           | Some s \<Rightarrow> resolve i r (JString s) m)
      | _ \<Rightarrow> m)"

definition rest_step :: "RESTOptions \<Rightarrow> RestEvent \<Rightarrow> RESTManager \<Rightarrow> RESTManager" where
  "rest_step cfg ev m =
     (case ev of
        Request ep options \<Rightarrow> request ep options m
      | Advance dt \<Rightarrow> m\<lparr>now := now m + int dt\<rparr>
      | TimerFired i \<Rightarrow> if i < length (workers m) then timer_fired i m else m
      | FetchSettled i res \<Rightarrow> if i < length (workers m) then fetch_settled cfg i res m else m
      | JsonRead i res \<Rightarrow> if i < length (workers m) then json_read cfg i res m else m
      | TextRead i res \<Rightarrow> if i < length (workers m) then text_read cfg i res m else m)"

definition rest_run :: "RESTOptions \<Rightarrow> RESTManager \<Rightarrow> RestEvent list \<Rightarrow> RESTManager" where
  "rest_run cfg m evs = foldl (\<lambda>m ev. rest_step cfg ev m) m evs"

subsection \<open>Observations on states and effect lists\<close>

text \<open>The bucket a request is queued under (line 80) and updates (line 211).\<close>

definition bucketOf :: "QueuedRequest \<Rightarrow> string" where
  "bucketOf r = getBucketId (endpoint r) (req_method r)"

text \<open>The request a worker has taken from its queue and not yet settled or put back.\<close>

fun pc_request :: "PC \<Rightarrow> QueuedRequest option" where
  "pc_request LoopHead = None"
| "pc_request (AwaitGlobalSleep r) = Some r"
| "pc_request (AwaitBucketSleep r) = Some r"
| "pc_request (AwaitFetch r) = Some r"
| "pc_request (AwaitErrorBody r response) = Some r"
| "pc_request (AwaitJson r) = Some r"
| "pc_request (AwaitText r) = Some r"
| "pc_request (AwaitRetrySleep r) = Some r"
| "pc_request Finished = None"

text \<open>The calls of \<^verbatim>\<open>request.resolve\<close> and \<^verbatim>\<open>request.reject\<close>, in order.\<close>

fun completions :: "RestEffect list \<Rightarrow> RestEffect list" where
  "completions [] = []"
| "completions (Resolve r v # es) = Resolve r v # completions es"
| "completions (Reject r err # es) = Reject r err # completions es"
| "completions (e # es) = completions es"

text \<open>The requests handed to \<^verbatim>\<open>fetch\<close>, and the delays handed to \<^verbatim>\<open>sleep\<close>, in order.\<close>

fun fetched :: "RestEffect list \<Rightarrow> QueuedRequest list" where
  "fetched [] = []"
| "fetched (Fetch r url # es) = r # fetched es"
| "fetched (e # es) = fetched es"

fun slept :: "RestEffect list \<Rightarrow> int option list" where
  "slept [] = []"
| "slept (Sleep ms # es) = ms # slept es"
| "slept (e # es) = slept es"

text \<open>The promises settled for the requests of bucket \<open>b\<close>, in order.\<close>

fun settled :: "string \<Rightarrow> RestEffect list \<Rightarrow> nat list" where
  "settled b [] = []"
| "settled b (Resolve r v # es) =
     (if bucketOf r = b then promise r # settled b es else settled b es)"
| "settled b (Reject r err # es) =
     (if bucketOf r = b then promise r # settled b es else settled b es)"
| "settled b (e # es) = settled b es"

text \<open>The promises settled, whatever the bucket, in order.\<close>

fun settled_all :: "RestEffect list \<Rightarrow> nat list" where
  "settled_all [] = []"
| "settled_all (Resolve r v # es) = promise r # settled_all es"
| "settled_all (Reject r err # es) = promise r # settled_all es"
| "settled_all (e # es) = settled_all es"

text \<open>The conditions of lines 106 and 114.\<close>

definition global_limited :: "RESTManager \<Rightarrow> bool" where
  "global_limited m = (globalRemaining m \<le> 0 \<and> now m < globalReset m)"

definition bucket_limited :: "RESTManager \<Rightarrow> string \<Rightarrow> bool" where
  "bucket_limited m b =
     (case buckets m b of None \<Rightarrow> False | Some d \<Rightarrow> remaining d \<le> 0 \<and> now m < reset d * 1000)"

text \<open>
  The promises of the requests submitted to bucket \<open>b\<close> by the \<open>Request\<close> events of
  a run, in order; \<open>n\<close> is the number of promises handed out before.
\<close>

fun submitted :: "string \<Rightarrow> nat \<Rightarrow> RestEvent list \<Rightarrow> nat list" where
  "submitted b n [] = []"
| "submitted b n (Request ep options # evs) =
     (if getBucketId ep (case opt_method options of None \<Rightarrow> ''GET'' | Some x \<Rightarrow> x) = b
      then n # submitted b (Suc n) evs else submitted b (Suc n) evs)"
| "submitted b n (ev # evs) = submitted b n evs"

subsection \<open>Invariants of the event loop\<close>

text \<open>
  What holds of the dispatcher after every event, with \<open>S b\<close> the promises submitted to
  bucket \<open>b\<close> so far: two running workers never share a bucket; a running worker's bucket
  is in \<^verbatim>\<open>processing\<close>; every request waits, or is held, under the bucket derived from it;
  and the promises settled for a bucket, the one its worker holds and the ones waiting in
  its queue are, in this order, exactly \<open>S b\<close>. The invariant is stated on the fields it
  reads.
\<close>

definition hold :: "Worker \<Rightarrow> nat list" where
  "hold w = (case pc_request (wpc w) of None \<Rightarrow> [] | Some r \<Rightarrow> [promise r])"

definition INVf ::
  "(string \<Rightarrow> nat list) \<Rightarrow> Worker list \<Rightarrow> string set \<Rightarrow> (string \<Rightarrow> QueuedRequest list) \<Rightarrow>
   (string \<Rightarrow> nat list) \<Rightarrow> bool" where
  "INVf S wl P Q E \<longleftrightarrow>
     (\<forall>i < length wl. \<forall>j < length wl.
        i \<noteq> j \<and> wpc (wl ! i) \<noteq> Finished \<and> wpc (wl ! j) \<noteq> Finished \<longrightarrow>
        wbucket (wl ! i) \<noteq> wbucket (wl ! j))
   \<and> (\<forall>i < length wl. wpc (wl ! i) \<noteq> Finished \<longrightarrow> wbucket (wl ! i) \<in> P)
   \<and> (\<forall>b. \<forall>r \<in> set (Q b). bucketOf r = b)
   \<and> (\<forall>i < length wl. \<forall>r. pc_request (wpc (wl ! i)) = Some r \<longrightarrow> bucketOf r = wbucket (wl ! i))
   \<and> (\<forall>i < length wl. wpc (wl ! i) \<noteq> Finished \<longrightarrow>
        S (wbucket (wl ! i)) =
          E (wbucket (wl ! i)) @ hold (wl ! i) @ map promise (Q (wbucket (wl ! i))))
   \<and> (\<forall>b. (\<forall>i < length wl. wpc (wl ! i) \<noteq> Finished \<longrightarrow> wbucket (wl ! i) \<noteq> b) \<longrightarrow>
        S b = E b @ map promise (Q b))"

definition INV :: "(string \<Rightarrow> nat list) \<Rightarrow> RESTManager \<Rightarrow> bool" where
  "INV S m = INVf S (workers m) (processing m) (\<lambda>b. queue_of m b) (\<lambda>b. settled b (effects m))"

definition frame :: "string \<Rightarrow> RESTManager \<Rightarrow> RESTManager \<Rightarrow> bool" where
  "frame b m X \<longleftrightarrow>
     workers X = workers m \<and> processing X = processing m
     \<and> (\<forall>b'. b' \<noteq> b \<longrightarrow> queue_of X b' = queue_of m b' \<and> settled b' (effects X) = settled b' (effects m))"

definition bucket_of_call :: "string \<Rightarrow> RequestOptions \<Rightarrow> string" where
  "bucket_of_call ep options = getBucketId ep (case opt_method options of None \<Rightarrow> ''GET'' | Some x \<Rightarrow> x)"

section \<open>Session state machine: \<^verbatim>\<open>src/gateway/WebSocketManager.ts\<close>\<close>

subsection \<open>Constants\<close>

text \<open>
  Modelled from the spec: \<^verbatim>\<open>constants/Gateway.ts\<close> is not among the sources. Section 6 of
  the specification gives the opcodes the manager switches on: dispatch 0, heartbeat 1,
  identify 2, resume 6, reconnect-request 7, invalid-session 9, hello 10, heartbeat-ack 11.
\<close>

definition DISPATCH :: int where "DISPATCH = 0"
definition HEARTBEAT :: int where "HEARTBEAT = 1"
definition IDENTIFY :: int where "IDENTIFY = 2"
definition RESUME :: int where "RESUME = 6"
definition RECONNECT :: int where "RECONNECT = 7"
definition INVALID_SESSION :: int where "INVALID_SESSION = 9"
definition HELLO :: int where "HELLO = 10"
definition HEARTBEAT_ACK :: int where "HEARTBEAT_ACK = 11"

text \<open>
  \<^verbatim>\<open>GatewayCloseCodes\<close> comes from the same missing file, and the specification gives no
  numbers for it: the six codes \<^verbatim>\<open>shouldReconnect\<close> names are a parameter. So is the table
  \<^verbatim>\<open>GatewayIntentBits\<close> of \<^verbatim>\<open>constants/GatewayIntents.ts\<close>.
\<close>

record GatewayCloseCodes =
  AUTHENTICATION_FAILED :: int
  INVALID_SHARD :: int
  SHARDING_REQUIRED :: int
  INVALID_API_VERSION :: int
  INVALID_INTENTS :: int
  DISALLOWED_INTENTS :: int

subsection \<open>Data\<close>

text \<open>
  What the manager reads of the client and of its own constructor arguments: the token,
  the intents, the options \<^verbatim>\<open>ws\<close>, \<^verbatim>\<open>process.platform\<close>, the shard. And what it depends
  on in the package \<^verbatim>\<open>ws\<close>, whose code is not part of the repository: the URLs the
  constructor \<^verbatim>\<open>new WebSocket(url)\<close> accepts (it throws on the others), and the arguments
  \<^verbatim>\<open>close(code, reason)\<close> accepts on an open socket (it throws on the others).
\<close>

record WsClient =
  token :: "string option"
  intents :: "string list"
  GatewayIntentBits :: "string \<Rightarrow> nat option"
  closeCodes :: GatewayCloseCodes
  connectionTimeout :: nat
  maxReconnectAttempts :: nat
  reconnectDelay :: nat
  platform :: string
  shardId :: nat
  totalShards :: nat
  constructible :: "string \<Rightarrow> bool"
  closable :: "int \<Rightarrow> string \<Rightarrow> bool"

datatype ReadyState = CONNECTING | OPEN | CLOSING | CLOSED

text \<open>
  A number that may be \<^verbatim>\<open>null\<close> or \<^verbatim>\<open>undefined\<close>: the field \<^verbatim>\<open>s?: number | null\<close> of a
  frame (\<^verbatim>\<open>types/GatewayTypes.ts\<close>), which is \<^verbatim>\<open>undefined\<close> when the frame has no key
  \<^verbatim>\<open>s\<close>, and the field \<^verbatim>\<open>sequence\<close> of the manager, which receives it.
\<close>

datatype JsNumber = Undefined | JsNull | Number int

text \<open>
  The payload field \<^verbatim>\<open>d\<close> of an inbound frame is \<^verbatim>\<open>any\<close>. The manager reads three
  properties of it; reading a property of \<^verbatim>\<open>null\<close> or of \<^verbatim>\<open>undefined\<close> throws a
  \<^verbatim>\<open>TypeError\<close> (\<open>Null\<close> stands for both), reading one that is not there gives
  \<^verbatim>\<open>undefined\<close> (\<open>None\<close>). A value that is neither \<^verbatim>\<open>null\<close> nor an object has none of the
  properties.
\<close>

record GatewayData =
  heartbeat_interval :: "int option"
  session_id :: "string option"
  resume_gateway_url :: "string option"

datatype InData = Null | Object GatewayData

text \<open>
  A frame, with the type \<^verbatim>\<open>GatewayPayload\<close> of the repository: \<^verbatim>\<open>op: number\<close>, \<^verbatim>\<open>d?: any\<close>,
  \<^verbatim>\<open>s?: number | null\<close>, \<^verbatim>\<open>t?: string | null\<close>. For \<^verbatim>\<open>t\<close>, \<open>None\<close> is \<^verbatim>\<open>null\<close> and
  \<^verbatim>\<open>undefined\<close>: the manager only compares \<^verbatim>\<open>t\<close> with two names and calls its method
  \<^verbatim>\<open>toLowerCase\<close>, which throws on both.
\<close>

record GatewayPayload =
  p_op :: int
  p_d :: InData
  p_s :: JsNumber
  p_t :: "string option"

record GatewayIdentifyData =
  id_token :: "string option"
  id_intents :: int
  id_os :: string
  id_browser :: string
  id_device :: string
  id_shard :: "nat \<times> nat"

text \<open>
  What the manager sends: a heartbeat carries the sequence, an identify and a resume their
  records; a collaborator's payload passes through \<^verbatim>\<open>send\<close> uninterpreted.
\<close>

datatype OutData =
    OutSequence JsNumber
  | OutIdentify GatewayIdentifyData
  | OutResume "string option" "string option" JsNumber
  | OutOther string

record OutboundPayload =
  o_op :: int
  o_d :: OutData

datatype JsError = TypeError

text \<open>The events of \<^verbatim>\<open>WebSocketManagerEvents\<close> the manager emits.\<close>

datatype Emitted =
    EvReady InData
  | EvResumed
  | EvDisconnect int string
  | EvReconnecting
  | EvError string
  | EvRaw GatewayPayload

text \<open>
  What the manager does to the world, in order. A socket is named by its number: the
  \<open>n\<close>-th socket the manager has created, from 0. The last four are the outcomes of the
  promises a collaborator holds.
\<close>

datatype WsEffect =
    Emit Emitted
  | ClientEmit string InData
  | Log LogLevel string
  | WsSend nat OutboundPayload
  | WsNew string
  | WsNewThrew string
  | WsClose nat "int option" "string option"
  | WsRemoveAllListeners nat
  | SetInterval "int option"
  | ClearInterval
  | SetTimeout nat
  | ClearTimeout
  | ConnectResolved
  | ConnectRejected string
  | DisconnectResolved
  | DisconnectRejected

datatype Timeout = Timeout "int option"

text \<open>
  A socket the manager has created: its URL, its \<^verbatim>\<open>readyState\<close>, and the handlers the
  manager has on it: those of \<^verbatim>\<open>setupEventHandlers\<close> (lines 119-136) and the two one-shot
  handlers of \<^verbatim>\<open>connect\<close> (lines 62 and 68).
\<close>

record Socket =
  sock_url :: string
  readyState :: ReadyState
  listeners :: bool
  onceOpen :: bool
  onceError :: bool

text \<open>
  Who awaits the promise of a \<^verbatim>\<open>connect\<close> call, and the continuations the manager has
  left with the runtime: a \<^verbatim>\<open>reconnect\<close> asleep at line 376, a \<^verbatim>\<open>connect\<close> whose promise
  is pending (lines 57-72) with the socket it waits for, the timer of line 167.
\<close>

datatype Caller = ByReconnect | ByCollaborator

datatype Task = ReconnectDelay | Connecting Caller nat | IdentifyTimer

text \<open>
  The fields of the class; \<open>ws\<close> is the number of the socket the field refers to, \<open>None\<close>
  for \<^verbatim>\<open>null\<close>. Then the sockets created so far, the pending continuations and the
  effects so far.
\<close>

record WebSocketManager =
  ws :: "nat option"
  heartbeatInterval :: "Timeout option"
  lastHeartbeatAck :: bool
  sequence :: JsNumber
  sessionId :: "string option"
  resumeGatewayUrl :: "string option"
  reconnectAttempts :: nat
  isReconnecting :: bool
  sockets :: "Socket list"
  pending :: "Task list"
  trace :: "WsEffect list"

definition newWebSocketManager :: WebSocketManager where
  "newWebSocketManager =
     \<lparr>ws = None, heartbeatInterval = None, lastHeartbeatAck = True, sequence = JsNull,
      sessionId = None, resumeGatewayUrl = None, reconnectAttempts = 0, isReconnecting = False,
      sockets = [], pending = [], trace = []\<rparr>"

subsection \<open>Helpers\<close>

definition emit :: "Emitted \<Rightarrow> WebSocketManager \<Rightarrow> WebSocketManager" where
  "emit e m = m\<lparr>trace := trace m @ [Emit e]\<rparr>"

definition logW :: "LogLevel \<Rightarrow> string \<Rightarrow> WebSocketManager \<Rightarrow> WebSocketManager" where
  "logW lvl msg m = m\<lparr>trace := trace m @ [Log lvl msg]\<rparr>"

definition effect :: "WsEffect \<Rightarrow> WebSocketManager \<Rightarrow> WebSocketManager" where
  "effect e m = m\<lparr>trace := trace m @ [e]\<rparr>"

definition setSocket :: "nat \<Rightarrow> (Socket \<Rightarrow> Socket) \<Rightarrow> WebSocketManager \<Rightarrow> WebSocketManager" where
  "setSocket sid f m = m\<lparr>sockets := (sockets m)[sid := f (sockets m ! sid)]\<rparr>"

text \<open>\<^verbatim>\<open>this.ws.readyState\<close>, when \<^verbatim>\<open>this.ws\<close> is not \<^verbatim>\<open>null\<close>.\<close>

definition socketState :: "WebSocketManager \<Rightarrow> ReadyState option" where
  "socketState m = (case ws m of None \<Rightarrow> None | Some sid \<Rightarrow> Some (readyState (sockets m ! sid)))"

text \<open>JavaScript truthiness of a string that may be \<^verbatim>\<open>null\<close>: the empty string is falsy.\<close>

definition truthy :: "string option \<Rightarrow> bool" where
  "truthy x = (case x of None \<Rightarrow> False | Some v \<Rightarrow> v \<noteq> [])"

text \<open>\<^verbatim>\<open>toLowerCase\<close> on the letters A to Z; event names are ASCII.\<close>

definition lower_char :: "char \<Rightarrow> char" where
  "lower_char c =
     (if 65 \<le> (of_char c :: nat) \<and> (of_char c :: nat) \<le> 90
      then char_of ((of_char c :: nat) + 32) else c)"

definition toLowerCase :: "string \<Rightarrow> string" where
  "toLowerCase x = map lower_char x"

text \<open>
  What the package \<^verbatim>\<open>ws\<close> does to the \<^verbatim>\<open>readyState\<close> of a socket whose \<^verbatim>\<open>close\<close> is
  called: a socket that is not closed yet is closing. And \<^verbatim>\<open>removeAllListeners\<close>.
\<close>

definition closing :: "Socket \<Rightarrow> Socket" where
  "closing s = (if readyState s = CLOSED then s else s\<lparr>readyState := CLOSING\<rparr>)"

definition removeAllListeners :: "Socket \<Rightarrow> Socket" where
  "removeAllListeners s = s\<lparr>listeners := False, onceOpen := False, onceError := False\<rparr>"

subsection \<open>\<^verbatim>\<open>send\<close> (lines 102-111)\<close>

definition send :: "OutboundPayload \<Rightarrow> WebSocketManager \<Rightarrow> WebSocketManager" where
  "send payload m =
     (if ws m = None \<or> socketState m \<noteq> Some OPEN
      then logW WARN ''Cannot send payload: WebSocket not connected'' m
      else effect (WsSend (the (ws m)) payload) (logW DEBUG ''Sending payload:'' m))"

subsection \<open>Heartbeat, identify, resume (lines 239-317)\<close>

definition sendHeartbeat :: "WebSocketManager \<Rightarrow> WebSocketManager" where
  "sendHeartbeat m =
     logW DEBUG ''Sent heartbeat''
       (send \<lparr>o_op = HEARTBEAT, o_d = OutSequence (sequence m)\<rparr> (m\<lparr>lastHeartbeatAck := False\<rparr>))"

text \<open>
  \<^verbatim>\<open>startHeartbeat\<close> up to the first heartbeat; the callback it hands to \<^verbatim>\<open>setInterval\<close>
  is \<open>heartbeat_tick\<close> below.
\<close>

definition startHeartbeat :: "int option \<Rightarrow> WebSocketManager \<Rightarrow> WebSocketManager" where
  "startHeartbeat interval m =
     (let m1 = (if heartbeatInterval m \<noteq> None then effect ClearInterval m else m);
          m2 = effect (SetInterval interval) (m1\<lparr>heartbeatInterval := Some (Timeout interval)\<rparr>)
      in sendHeartbeat m2)"

text \<open>
  \<^verbatim>\<open>bits | bit\<close> works on 32-bit integers; a name the table does not know, or a bit 0,
  leaves the bits as they are.
\<close>

definition calculateIntents :: "WsClient \<Rightarrow> int" where
  "calculateIntents client =
     sint (foldl (\<lambda>bits intent.
                    case GatewayIntentBits client intent of
                      None \<Rightarrow> bits
                    | Some b \<Rightarrow> if b \<noteq> 0 then bits OR (word_of_nat b :: 32 word) else bits)
                 0 (intents client))"

definition identify :: "WsClient \<Rightarrow> WebSocketManager \<Rightarrow> WebSocketManager" where
  "identify client m =
     logW DEBUG ''Sent IDENTIFY''
       (send \<lparr>o_op = IDENTIFY,
              o_d = OutIdentify
                \<lparr>id_token = token client, id_intents = calculateIntents client,
                 id_os = platform client, id_browser = ''astrium.js'', id_device = ''astrium.js'',
                 id_shard = (shardId client, totalShards client)\<rparr>\<rparr> m)"

definition resume :: "WsClient \<Rightarrow> WebSocketManager \<Rightarrow> WebSocketManager" where
  "resume client m =
     logW DEBUG ''Sent RESUME''
       (send \<lparr>o_op = RESUME, o_d = OutResume (token client) (sessionId m) (sequence m)\<rparr> m)"

subsection \<open>\<^verbatim>\<open>reconnect\<close> (lines 357-390)\<close>

text \<open>\<^verbatim>\<open>reconnect\<close> up to the \<^verbatim>\<open>await\<close> of line 376.\<close>

definition reconnect :: "WsClient \<Rightarrow> WebSocketManager \<Rightarrow> WebSocketManager" where
  "reconnect client m =
     (if isReconnecting m then m
      else (let m1 = m\<lparr>isReconnecting := True, reconnectAttempts := reconnectAttempts m + 1\<rparr>;
                m2 = emit EvReconnecting (logW INFO ''Reconnecting...'' m1);
                m3 = (case ws m2 of
                        None \<Rightarrow> m2
                      | Some sid \<Rightarrow>
                          (setSocket sid (closing \<circ> removeAllListeners)
                             (effect (WsClose sid None None)
                                (effect (WsRemoveAllListeners sid) m2)))\<lparr>ws := None\<rparr>);
                m4 = effect (SetTimeout (reconnectDelay client)) m3
            in m4\<lparr>pending := pending m4 @ [ReconnectDelay]\<rparr>))"

text \<open>The \<^verbatim>\<open>catch\<close> block, lines 380-389.\<close>

definition reconnect_failed :: "WsClient \<Rightarrow> WebSocketManager \<Rightarrow> WebSocketManager" where
  "reconnect_failed client m =
     (let m1 = logW ERROR ''Reconnection failed:'' m
      in if reconnectAttempts m1 < maxReconnectAttempts client
         then reconnect client m1
         else emit (EvError ''Max reconnection attempts reached'')
                (logW ERROR ''Max reconnection attempts reached'' m1))"

subsection \<open>\<^verbatim>\<open>connect\<close> (lines 43-76) and \<^verbatim>\<open>disconnect\<close> (lines 81-97)\<close>

text \<open>
  What follows when the promise of a \<^verbatim>\<open>connect\<close> call is settled: a collaborator sees the
  outcome; the \<^verbatim>\<open>reconnect\<close> that awaits it at line 379 ends when it is resolved and runs
  its \<^verbatim>\<open>catch\<close> block when it is rejected. The continuation is run with the event that
  settles the promise.
\<close>

definition resolved :: "Caller \<Rightarrow> WebSocketManager \<Rightarrow> WebSocketManager" where
  "resolved caller m =
     (case caller of ByReconnect \<Rightarrow> m | ByCollaborator \<Rightarrow> effect ConnectResolved m)"

definition rejected :: "WsClient \<Rightarrow> Caller \<Rightarrow> string \<Rightarrow> WebSocketManager \<Rightarrow> WebSocketManager" where
  "rejected client caller msg m =
     (case caller of
        ByReconnect \<Rightarrow> reconnect_failed client m
      | ByCollaborator \<Rightarrow> effect (ConnectRejected msg) m)"

text \<open>
  \<^verbatim>\<open>connect\<close> up to the promise it returns. \<^verbatim>\<open>gatewayUrl || this.resumeGatewayUrl ||
  default\<close> skips empty strings. When the constructor throws, the field \<^verbatim>\<open>ws\<close> is not
  assigned and the call is rejected at once (lines 73-75); otherwise the new socket gets
  the handlers of \<^verbatim>\<open>setupEventHandlers\<close> and the two one-shot handlers, and the timer of
  line 58 is started.
\<close>

definition connect :: "WsClient \<Rightarrow> string option \<Rightarrow> Caller \<Rightarrow> WebSocketManager \<Rightarrow> WebSocketManager" where
  "connect client gatewayUrl caller m =
     (if ws m \<noteq> None \<and> socketState m = Some OPEN
      then resolved caller (logW WARN ''WebSocket is already connected'' m)
      else (let url = (if truthy gatewayUrl then the gatewayUrl
                       else if truthy (resumeGatewayUrl m) then the (resumeGatewayUrl m)
                       else ''wss://gateway.discord.gg/?v=10&encoding=json'');
                m1 = logW DEBUG ''Connecting to Gateway'' m
            in if \<not> constructible client url
               then rejected client caller ''Failed to create WebSocket'' (effect (WsNewThrew url) m1)
               else (let sid = length (sockets m1);
                         m2 = effect (WsNew url)
                                (m1\<lparr>ws := Some sid,
                                    sockets := sockets m1 @
                                      [\<lparr>sock_url = url, readyState = CONNECTING, listeners = True,
                                        onceOpen = True, onceError = True\<rparr>]\<rparr>);
                         m3 = effect (SetTimeout (connectionTimeout client)) m2
                     in m3\<lparr>pending := pending m3 @ [Connecting caller sid]\<rparr>)))"

text \<open>
  \<^verbatim>\<open>disconnect\<close>. When \<^verbatim>\<open>close\<close> throws (line 88), the lines after it are not run and the
  call is rejected; the socket is closing by then.
\<close>

definition disconnect :: "WsClient \<Rightarrow> int \<Rightarrow> string \<Rightarrow> WebSocketManager \<Rightarrow> WebSocketManager" where
  "disconnect client code reason m =
     (let m1 = (if heartbeatInterval m \<noteq> None
                then effect ClearInterval (m\<lparr>heartbeatInterval := None\<rparr>) else m);
          finish = (\<lambda>x. effect DisconnectResolved
                     (x\<lparr>sequence := JsNull, sessionId := None, resumeGatewayUrl := None,
                        reconnectAttempts := 0, isReconnecting := False\<rparr>))
      in case ws m1 of
           None \<Rightarrow> finish m1
         | Some sid \<Rightarrow>
             (let m2 = setSocket sid closing (effect (WsClose sid (Some code) (Some reason)) m1)
              in if readyState (sockets m1 ! sid) = OPEN \<and> \<not> closable client code reason
                 then effect DisconnectRejected m2
                 else finish (m2\<lparr>ws := None\<rparr>)))"

text \<open>Line 379, when the delay is over.\<close>

definition reconnect_delay_over :: "WsClient \<Rightarrow> WebSocketManager \<Rightarrow> WebSocketManager" where
  "reconnect_delay_over client m =
     (if ReconnectDelay \<in> set (pending m)
      then connect client None ByReconnect (m\<lparr>pending := remove1 ReconnectDelay (pending m)\<rparr>)
      else m)"

text \<open>
  The promise of the \<^verbatim>\<open>connect\<close> call that created socket \<open>sid\<close>, if it is still
  pending; settling a promise that is settled already does nothing.
\<close>

fun awaiting :: "nat \<Rightarrow> Task list \<Rightarrow> Caller option" where
  "awaiting sid [] = None"
| "awaiting sid (Connecting c n # ts) = (if n = sid then Some c else awaiting sid ts)"
| "awaiting sid (t # ts) = awaiting sid ts"

definition resolve_connect :: "nat \<Rightarrow> WebSocketManager \<Rightarrow> WebSocketManager" where
  "resolve_connect sid m =
     (case awaiting sid (pending m) of
        None \<Rightarrow> m
      | Some caller \<Rightarrow> resolved caller (m\<lparr>pending := remove1 (Connecting caller sid) (pending m)\<rparr>))"

definition reject_connect :: "WsClient \<Rightarrow> nat \<Rightarrow> string \<Rightarrow> WebSocketManager \<Rightarrow> WebSocketManager" where
  "reject_connect client sid msg m =
     (case awaiting sid (pending m) of
        None \<Rightarrow> m
      | Some caller \<Rightarrow>
          rejected client caller msg (m\<lparr>pending := remove1 (Connecting caller sid) (pending m)\<rparr>))"

subsection \<open>Inbound frames (lines 142-234)\<close>

definition handleReady :: "InData \<Rightarrow> WebSocketManager \<Rightarrow> JsError + WebSocketManager" where
  "handleReady data m =
     (case data of
        Null \<Rightarrow> Inl TypeError
      | Object g \<Rightarrow>
          Inr (emit (EvReady data)
                 (logW INFO ''Shard ready''
                    (m\<lparr>sessionId := session_id g, resumeGatewayUrl := resume_gateway_url g,
                       isReconnecting := False, reconnectAttempts := 0\<rparr>))))"

definition handleDispatch :: "GatewayPayload \<Rightarrow> WebSocketManager \<Rightarrow> JsError + WebSocketManager" where
  "handleDispatch payload m =
     (if p_t payload = Some ''READY'' then handleReady (p_d payload) m
      else if p_t payload = Some ''RESUMED''
      then Inr (emit EvResumed
                  ((logW INFO ''Session resumed'' m)\<lparr>isReconnecting := False, reconnectAttempts := 0\<rparr>))
      else (case p_t payload of
              None \<Rightarrow> Inl TypeError
            | Some name \<Rightarrow> Inr (effect (ClientEmit (toLowerCase name) (p_d payload)) m)))"

definition handleHello :: "WsClient \<Rightarrow> InData \<Rightarrow> WebSocketManager \<Rightarrow> JsError + WebSocketManager" where
  "handleHello client data m =
     (case data of
        Null \<Rightarrow> Inl TypeError
      | Object g \<Rightarrow>
          (let m1 = logW DEBUG ''Received HELLO'' m;
               m2 = startHeartbeat (heartbeat_interval g) m1
           in Inr (if truthy (sessionId m2) \<and> sequence m2 \<noteq> JsNull
                   then resume client m2 else identify client m2)))"

text \<open>
  \<^verbatim>\<open>handlePayload\<close>: what it throws, if anything, and the state it leaves; the event
  \<^verbatim>\<open>raw\<close> and the sequence of lines 143-147 stay when a later line throws. The test of
  line 145 is \<^verbatim>\<open>payload.s !== null\<close>: a frame without \<^verbatim>\<open>s\<close> passes it and stores
  \<^verbatim>\<open>undefined\<close>.
\<close>

definition handlePayload ::
  "WsClient \<Rightarrow> GatewayPayload \<Rightarrow> WebSocketManager \<Rightarrow> JsError option \<times> WebSocketManager" where
  "handlePayload client payload m =
     (let m1 = emit (EvRaw payload) m;
          m2 = (if p_s payload \<noteq> JsNull then m1\<lparr>sequence := p_s payload\<rparr> else m1);
          finish = (\<lambda>r. case r of Inl e \<Rightarrow> (Some e, m2) | Inr m' \<Rightarrow> (None, m'))
      in if p_op payload = DISPATCH then finish (handleDispatch payload m2)
         else if p_op payload = HEARTBEAT then (None, sendHeartbeat m2)
         else if p_op payload = RECONNECT
         then (None, reconnect client (logW INFO ''Gateway requested reconnect'' m2))
         else if p_op payload = INVALID_SESSION
         then (let m3 = (logW WARN ''Invalid session, identifying again'' m2)
                          \<lparr>sessionId := None, sequence := JsNull\<rparr>;
                   m4 = effect (SetTimeout 5000) m3
               in (None, m4\<lparr>pending := pending m4 @ [IdentifyTimer]\<rparr>))
         else if p_op payload = HELLO then finish (handleHello client (p_d payload) m2)
         else if p_op payload = HEARTBEAT_ACK
         then (None, logW DEBUG ''Received heartbeat ACK'' (m2\<lparr>lastHeartbeatAck := True\<rparr>))
         else (None, logW DEBUG ''Unknown opcode'' m2))"

text \<open>
  The \<^verbatim>\<open>message\<close> handler of lines 119-126: a frame that is not JSON (\<open>None\<close>), and
  whatever \<^verbatim>\<open>handlePayload\<close> throws, end in the log.
\<close>

definition onMessage :: "WsClient \<Rightarrow> GatewayPayload option \<Rightarrow> WebSocketManager \<Rightarrow> WebSocketManager" where
  "onMessage client received m =
     (case received of
        None \<Rightarrow> logW ERROR ''Failed to parse Gateway payload:'' m
      | Some payload \<Rightarrow>
          (case handlePayload client payload m of
             (Some e, m') \<Rightarrow> logW ERROR ''Failed to parse Gateway payload:'' m'
           | (None, m') \<Rightarrow> m'))"

subsection \<open>Closure (lines 322-352)\<close>

definition shouldReconnect :: "WsClient \<Rightarrow> int \<Rightarrow> WebSocketManager \<Rightarrow> bool" where
  "shouldReconnect client code m =
     (code \<notin> set [AUTHENTICATION_FAILED (closeCodes client), INVALID_SHARD (closeCodes client),
                   SHARDING_REQUIRED (closeCodes client), INVALID_API_VERSION (closeCodes client),
                   INVALID_INTENTS (closeCodes client), DISALLOWED_INTENTS (closeCodes client)]
      \<and> reconnectAttempts m < maxReconnectAttempts client)"

definition handleClose :: "WsClient \<Rightarrow> int \<Rightarrow> string \<Rightarrow> WebSocketManager \<Rightarrow> WebSocketManager" where
  "handleClose client code reason m =
     (let m1 = (if heartbeatInterval m \<noteq> None
                then effect ClearInterval (m\<lparr>heartbeatInterval := None\<rparr>) else m);
          m2 = emit (EvDisconnect code reason) m1
      in if shouldReconnect client code m2 then reconnect client m2
         else logW ERROR ''WebSocket closed with non-recoverable code'' m2)"

subsection \<open>The heartbeat callback (lines 244-252)\<close>

definition heartbeat_tick :: "WsClient \<Rightarrow> WebSocketManager \<Rightarrow> WebSocketManager" where
  "heartbeat_tick client m =
     (if \<not> lastHeartbeatAck m
      then reconnect client (logW WARN ''Heartbeat not acknowledged, reconnecting'' m)
      else sendHeartbeat m)"

subsection \<open>The handlers of a socket\<close>

text \<open>
  What the manager does when socket \<open>sid\<close> emits \<^verbatim>\<open>open\<close>, \<^verbatim>\<open>error\<close>, \<^verbatim>\<open>close\<close> or
  \<^verbatim>\<open>message\<close>. The package \<^verbatim>\<open>ws\<close> has set the \<^verbatim>\<open>readyState\<close> by then: \<^verbatim>\<open>OPEN\<close> when it
  emits \<^verbatim>\<open>open\<close>, \<^verbatim>\<open>CLOSING\<close> when it emits \<^verbatim>\<open>error\<close>, \<^verbatim>\<open>CLOSED\<close> when it emits \<^verbatim>\<open>close\<close>. The
  manager hears an event only through the handlers it still has on that socket; on
  \<^verbatim>\<open>error\<close> the handler of lines 133-136, registered first, runs before the one-shot
  handler of line 68. A one-shot handler runs once; the one of line 62 also runs when the
  promise has been rejected by the timer in the meantime, and then only clears the timer
  and writes the log.
\<close>

definition socket_opened :: "nat \<Rightarrow> WebSocketManager \<Rightarrow> WebSocketManager" where
  "socket_opened sid m =
     (let m1 = setSocket sid (\<lambda>s. s\<lparr>readyState := OPEN\<rparr>) m
      in if onceOpen (sockets m ! sid)
         then resolve_connect sid
                (logW DEBUG ''WebSocket connection established''
                   (effect ClearTimeout (setSocket sid (\<lambda>s. s\<lparr>onceOpen := False\<rparr>) m1)))
         else m1)"

definition socket_error :: "WsClient \<Rightarrow> nat \<Rightarrow> string \<Rightarrow> WebSocketManager \<Rightarrow> WebSocketManager" where
  "socket_error client sid msg m =
     (let m1 = setSocket sid (\<lambda>s. s\<lparr>readyState := CLOSING\<rparr>) m;
          m2 = (if listeners (sockets m ! sid)
                then emit (EvError msg) (logW ERROR ''WebSocket error:'' m1) else m1)
      in if onceError (sockets m ! sid)
         then reject_connect client sid ''Connection failed''
                (effect ClearTimeout (setSocket sid (\<lambda>s. s\<lparr>onceError := False\<rparr>) m2))
         else m2)"

definition socket_closed :: "WsClient \<Rightarrow> nat \<Rightarrow> int \<Rightarrow> string \<Rightarrow> WebSocketManager \<Rightarrow> WebSocketManager" where
  "socket_closed client sid code reason m =
     (let m1 = setSocket sid (\<lambda>s. s\<lparr>readyState := CLOSED\<rparr>) m
      in if listeners (sockets m ! sid)
         then handleClose client code reason (logW DEBUG ''WebSocket closed'' m1)
         else m1)"

definition socket_message :: "WsClient \<Rightarrow> nat \<Rightarrow> GatewayPayload option \<Rightarrow> WebSocketManager \<Rightarrow> WebSocketManager" where
  "socket_message client sid received m =
     (if listeners (sockets m ! sid) then onMessage client received m else m)"

subsection \<open>The events of a session\<close>

text \<open>
  What can happen to the manager: a collaborator calls \<^verbatim>\<open>connect\<close>, \<^verbatim>\<open>disconnect\<close> or
  \<^verbatim>\<open>send\<close>; one of the sockets it has created delivers a frame, opens, closes or reports an
  error; the heartbeat interval ticks, if it is set; the timer of line 167 fires; the
  delay of a \<^verbatim>\<open>reconnect\<close> is over; the timer of a \<^verbatim>\<open>connect\<close> fires (line 58), which
  rejects its promise if that is still pending. Which of these happens, and when, is for
  the environment to say.
\<close>

datatype WsEvent =
    CallConnect "string option"
  | CallDisconnect int string
  | CallSend OutboundPayload
  | Message nat "GatewayPayload option"
  | SocketOpened nat
  | SocketClosed nat int string
  | SocketError nat string
  | HeartbeatTick
  | IdentifyTimerFired
  | ReconnectDelayOver
  | ConnectTimedOut nat

definition ws_step :: "WsClient \<Rightarrow> WsEvent \<Rightarrow> WebSocketManager \<Rightarrow> WebSocketManager" where
  "ws_step client ev m =
     (case ev of
        CallConnect url \<Rightarrow> connect client url ByCollaborator m
      | CallDisconnect code reason \<Rightarrow> disconnect client code reason m
      | CallSend payload \<Rightarrow> send payload m
      | Message sid received \<Rightarrow>
          if sid < length (sockets m) then socket_message client sid received m else m
      | SocketOpened sid \<Rightarrow> if sid < length (sockets m) then socket_opened sid m else m
      | SocketClosed sid code reason \<Rightarrow>
          if sid < length (sockets m) then socket_closed client sid code reason m else m
      | SocketError sid msg \<Rightarrow>
          if sid < length (sockets m) then socket_error client sid msg m else m
      | HeartbeatTick \<Rightarrow> if heartbeatInterval m \<noteq> None then heartbeat_tick client m else m
      | IdentifyTimerFired \<Rightarrow>
          if IdentifyTimer \<in> set (pending m)
          then identify client (m\<lparr>pending := remove1 IdentifyTimer (pending m)\<rparr>) else m
      | ReconnectDelayOver \<Rightarrow> reconnect_delay_over client m
      | ConnectTimedOut sid \<Rightarrow> reject_connect client sid ''Connection timeout'' m)"

definition ws_run :: "WsClient \<Rightarrow> WebSocketManager \<Rightarrow> WsEvent list \<Rightarrow> WebSocketManager" where
  "ws_run client m evs = foldl (\<lambda>m ev. ws_step client ev m) m evs"

subsection \<open>Observations on traces\<close>

text \<open>
  The payloads handed to a socket, the messages of the \<^verbatim>\<open>error\<close> events emitted, and the
  URLs of the sockets created, each in order.
\<close>

fun sent :: "WsEffect list \<Rightarrow> OutboundPayload list" where
  "sent [] = []"
| "sent (WsSend sid p # es) = p # sent es"
| "sent (e # es) = sent es"

fun errors_emitted :: "WsEffect list \<Rightarrow> string list" where
  "errors_emitted [] = []"
| "errors_emitted (Emit (EvError msg) # es) = msg # errors_emitted es"
| "errors_emitted (e # es) = errors_emitted es"

fun sockets_created :: "WsEffect list \<Rightarrow> string list" where
  "sockets_created [] = []"
| "sockets_created (WsNew url # es) = url # sockets_created es"
| "sockets_created (e # es) = sockets_created es"

text \<open>
  Whether the manager has the handlers of \<^verbatim>\<open>setupEventHandlers\<close> on socket \<open>sid\<close>.
\<close>

definition hears :: "WebSocketManager \<Rightarrow> nat \<Rightarrow> bool" where
  "hears m sid \<longleftrightarrow> sid < length (sockets m) \<and> listeners (sockets m ! sid)"

text \<open>
  What a run of frames leaves in \<^verbatim>\<open>sequence\<close>, starting from \<open>a\<close>: the field \<^verbatim>\<open>s\<close> of the
  last frame whose \<^verbatim>\<open>s\<close> is not \<^verbatim>\<open>null\<close>.
\<close>

fun last_sequence :: "JsNumber \<Rightarrow> GatewayPayload list \<Rightarrow> JsNumber" where
  "last_sequence a [] = a"
| "last_sequence a (p # ps) = last_sequence (if p_s p \<noteq> JsNull then p_s p else a) ps"

text \<open>The number a sequence field holds, when it holds one.\<close>

fun the_number :: "JsNumber \<Rightarrow> int" where
  "the_number (Number n) = n"
| "the_number x = 0"

fun is_number :: "JsNumber \<Rightarrow> bool" where
  "is_number (Number n) = True"
| "is_number x = False"

text \<open>The six close codes \<^verbatim>\<open>shouldReconnect\<close> lists as non-recoverable.\<close>

definition fatal_codes :: "WsClient \<Rightarrow> int set" where
  "fatal_codes client =
     {AUTHENTICATION_FAILED (closeCodes client), INVALID_SHARD (closeCodes client),
      SHARDING_REQUIRED (closeCodes client), INVALID_API_VERSION (closeCodes client),
      INVALID_INTENTS (closeCodes client), DISALLOWED_INTENTS (closeCodes client)}"

text \<open>The heartbeat frame of line 263.\<close>

definition heartbeatOf :: "JsNumber \<Rightarrow> OutboundPayload" where
  "heartbeatOf sq = \<lparr>o_op = HEARTBEAT, o_d = OutSequence sq\<rparr>"

text \<open>
  Events that need no collaborator and no frame from the service: sockets that open,
  close or report errors, and timers. And the messages of the socket errors among the
  events of a run, for the sockets on which the manager has the handler of lines 133-136,
  which relays them as \<^verbatim>\<open>error\<close> events; \<open>ls\<close> says for each socket whether it has.
\<close>

fun unprompted :: "WsEvent \<Rightarrow> bool" where
  "unprompted (CallConnect url) = False"
| "unprompted (CallDisconnect code reason) = False"
| "unprompted (CallSend payload) = False"
| "unprompted (Message sid received) = False"
| "unprompted ev = True"

fun socket_errors :: "bool list \<Rightarrow> WsEvent list \<Rightarrow> string list" where
  "socket_errors ls [] = []"
| "socket_errors ls (SocketError sid msg # evs) =
     (if sid < length ls \<and> ls ! sid then msg # socket_errors ls evs else socket_errors ls evs)"
| "socket_errors ls (ev # evs) = socket_errors ls evs"

text \<open>
  A manager marked as reconnecting with no reconnect left to run: no delay and no
  \<^verbatim>\<open>connect\<close> is pending. \<open>frozen\<close> says what an event may still change then.
\<close>

definition stuck :: "WebSocketManager \<Rightarrow> bool" where
  "stuck m \<longleftrightarrow> isReconnecting m \<and> set (pending m) \<subseteq> {IdentifyTimer}"

definition frozen :: "WebSocketManager \<Rightarrow> WsEvent \<Rightarrow> WebSocketManager \<Rightarrow> bool" where
  "frozen m ev m' \<longleftrightarrow>
     stuck m' \<and> reconnectAttempts m' = reconnectAttempts m
     \<and> map listeners (sockets m') = map listeners (sockets m)
     \<and> sockets_created (trace m') = sockets_created (trace m)
     \<and> errors_emitted (trace m') = errors_emitted (trace m) @ socket_errors (map listeners (sockets m)) [ev]"

section \<open>Concrete inputs\<close>

definition restOptions3 :: RESTOptions where
  "restOptions3 = \<lparr>rateLimitRetryLimit = 3\<rparr>"


definition getOptions :: RequestOptions where
  "getOptions = \<lparr>opt_method = Some ''GET'', opt_auth = None, opt_versioned = None, opt_content = []\<rparr>"

definition response200 :: Response where
  "response200 =
     \<lparr>status = 200, statusText = ''OK'', content_type = Some ''application/json'',
      x_ratelimit_limit = Some 5, x_ratelimit_remaining = Some 4,
      x_ratelimit_reset = Some 1700000000, x_ratelimit_reset_after = Some 2,
      x_ratelimit_bucket = Some ''abcd1234'', x_ratelimit_global = None\<rparr>"


definition response429 :: Response where
  "response429 =
     \<lparr>status = 429, statusText = ''Too Many Requests'', content_type = Some ''application/json'',
      x_ratelimit_limit = Some 5, x_ratelimit_remaining = Some 0,
      x_ratelimit_reset = Some 0, x_ratelimit_reset_after = Some 1,
      x_ratelimit_bucket = None, x_ratelimit_global = None\<rparr>"

text \<open>The bodies of these responses: a user, an error, and a rate-limit notice.\<close>

definition body200 :: Json where
  "body200 = JObject [(''id'', JString ''1''), (''username'', JString ''astrium'')]"


definition body429 :: "Json \<Rightarrow> Json" where
  "body429 wait =
     JObject [(''message'', JString ''You are being rate limited.''), (''retry_after'', wait),
              (''global'', JBool False)]"

definition request1 :: QueuedRequest where
  "request1 =
     \<lparr>endpoint = ''/users/1'', req_method = ''GET'', req_auth = True, req_versioned = True,
      req_content = [], promise = 0, retries = 0\<rparr>"

definition request2 :: QueuedRequest where
  "request2 =
     \<lparr>endpoint = ''/users/1'', req_method = ''GET'', req_auth = True, req_versioned = True,
      req_content = [], promise = 1, retries = 0\<rparr>"

text \<open>
  The dispatcher after one \<^verbatim>\<open>GET /users/1\<close> whose fetch has settled with status 404,
  200 and 429: worker 0 is reading the body.
\<close>

definition m_fetching :: RESTManager where
  "m_fetching = rest_step restOptions3 (Request ''/users/1'' getOptions) (newRESTManager 0)"






text \<open>
  A response that leaves its bucket exhausted until second 2, under a bucket name of the
  service, and two global rate-limit replies, asking for 1 and for 3 seconds.
\<close>

definition response_exhausted :: Response where
  "response_exhausted =
     \<lparr>status = 200, statusText = ''OK'', content_type = Some ''application/json'',
      x_ratelimit_limit = Some 5, x_ratelimit_remaining = Some 0,
      x_ratelimit_reset = Some 2, x_ratelimit_reset_after = Some 2,
      x_ratelimit_bucket = Some ''abcd1234'', x_ratelimit_global = None\<rparr>"

definition response_global :: "int \<Rightarrow> Response" where
  "response_global seconds =
     \<lparr>status = 429, statusText = ''Too Many Requests'', content_type = Some ''application/json'',
      x_ratelimit_limit = None, x_ratelimit_remaining = Some 0,
      x_ratelimit_reset = None, x_ratelimit_reset_after = Some seconds,
      x_ratelimit_bucket = None, x_ratelimit_global = Some ''true''\<rparr>"

definition request_c :: QueuedRequest where
  "request_c =
     \<lparr>endpoint = ''/c'', req_method = ''GET'', req_auth = True, req_versioned = True,
      req_content = [], promise = 2, retries = 0\<rparr>"

text \<open>
  A run in which the global limit is renewed while a worker sleeps on it: \<^verbatim>\<open>/a\<close> and \<^verbatim>\<open>/b\<close>
  are in flight; the reply to \<^verbatim>\<open>/a\<close> sets the global limit for one second; \<^verbatim>\<open>/c\<close> is
  submitted and its worker sleeps 1000 ms; after 500 ms the reply to \<^verbatim>\<open>/b\<close> sets the global
  limit for three more seconds; 500 ms later the timer of the sleeping worker is due.
\<close>

definition evs_renewed :: "RestEvent list" where
  "evs_renewed =
     [Request ''/a'' getOptions, Request ''/b'' getOptions,
      FetchSettled 0 (Some (response_global 1)), Request ''/c'' getOptions, Advance 500,
      FetchSettled 1 (Some (response_global 3)), Advance 500]"

definition m_renewed :: RESTManager where
  "m_renewed = rest_run restOptions3 (newRESTManager 0) evs_renewed"

text \<open>
  A run in which the only request of a bucket is answered, the answer leaving the bucket
  exhausted for two seconds.
\<close>

definition evs_exhausted :: "RestEvent list" where
  "evs_exhausted =
     [Request ''/users/1'' getOptions, FetchSettled 0 (Some response_exhausted),
      JsonRead 0 (Some body200)]"

definition m_exhausted :: RESTManager where
  "m_exhausted = rest_run restOptions3 (newRESTManager 0) evs_exhausted"

text \<open>
  Two requests of one bucket, the first answered 429 and then 200; two requests of two
  buckets, answered in the opposite order.
\<close>

definition evs_same :: "RestEvent list" where
  "evs_same =
     [Request ''/users/1'' getOptions, Request ''/users/1'' getOptions,
      FetchSettled 0 (Some response429), JsonRead 0 (Some (body429 (JNumber ''500''))),
      Advance 500, TimerFired 0,
      FetchSettled 0 (Some response200), JsonRead 0 (Some body200),
      FetchSettled 0 (Some response200), JsonRead 0 (Some body200)]"

definition evs_two :: "RestEvent list" where
  "evs_two =
     [Request ''/a'' getOptions, Request ''/b'' getOptions,
      FetchSettled 1 (Some response200), JsonRead 1 (Some body200),
      FetchSettled 0 (Some response200), JsonRead 0 (Some body200)]"

text \<open>
  A client with the default options of \<^verbatim>\<open>AstriumClient\<close> (5 reconnect attempts, 5 s delay);
  for the close codes, the numbers of the Discord gateway; a \<^verbatim>\<open>WebSocket\<close> constructor
  that accepts the URLs of the two WebSocket schemes, and a \<^verbatim>\<open>close\<close> that accepts the
  codes 1000 and 3000 to 4999 with a reason of at most 123 characters.
\<close>

definition discordCloseCodes :: GatewayCloseCodes where
  "discordCloseCodes =
     \<lparr>AUTHENTICATION_FAILED = 4004, INVALID_SHARD = 4010, SHARDING_REQUIRED = 4011,
      INVALID_API_VERSION = 4012, INVALID_INTENTS = 4013, DISALLOWED_INTENTS = 4014\<rparr>"

definition wsClient5 :: WsClient where
  "wsClient5 =
     \<lparr>token = Some ''token'', intents = [''GUILDS''],
      GatewayIntentBits = (\<lambda>name. if name = ''GUILDS'' then Some 1 else None),
      closeCodes = discordCloseCodes, connectionTimeout = 30000, maxReconnectAttempts = 5,
      reconnectDelay = 5000, platform = ''linux'', shardId = 0, totalShards = 1,
      constructible = (\<lambda>url. take 6 url = ''wss://'' \<or> take 5 url = ''ws://''),
      closable = (\<lambda>code reason. (code = 1000 \<or> (3000 \<le> code \<and> code \<le> 4999)) \<and> length reason \<le> 123)\<rparr>"

definition noData :: GatewayData where
  "noData = \<lparr>heartbeat_interval = None, session_id = None, resume_gateway_url = None\<rparr>"

definition helloFrame :: GatewayPayload where
  "helloFrame = \<lparr>p_op = HELLO, p_d = Object (noData\<lparr>heartbeat_interval := Some 41250\<rparr>),
                  p_s = JsNull, p_t = None\<rparr>"

definition readyFrame :: GatewayPayload where
  "readyFrame = \<lparr>p_op = DISPATCH,
                  p_d = Object (noData\<lparr>session_id := Some ''session'',
                                        resume_gateway_url := Some ''wss://resume.example''\<rparr>),
                  p_s = Number 1, p_t = Some ''READY''\<rparr>"

definition ackFrame :: GatewayPayload where
  "ackFrame = \<lparr>p_op = HEARTBEAT_ACK, p_d = Null, p_s = JsNull, p_t = None\<rparr>"

definition messageFrame :: "JsNumber \<Rightarrow> GatewayPayload" where
  "messageFrame sq = \<lparr>p_op = DISPATCH, p_d = Object noData, p_s = sq, p_t = Some ''MESSAGE_CREATE''\<rparr>"

definition resumeFrame :: OutboundPayload where
  "resumeFrame = \<lparr>o_op = RESUME, o_d = OutResume (Some ''token'') (Some ''session'') (Number 1)\<rparr>"

text \<open>
  A session that connects, is greeted, has its first heartbeat acknowledged and is made
  ready, state by state.
\<close>

definition m_connecting :: WebSocketManager where
  "m_connecting = ws_step wsClient5 (CallConnect None) newWebSocketManager"

definition m_open :: WebSocketManager where
  "m_open = ws_step wsClient5 (SocketOpened 0) m_connecting"

definition m_greeted :: WebSocketManager where
  "m_greeted = ws_step wsClient5 (Message 0 (Some helloFrame)) m_open"

definition m_acked :: WebSocketManager where
  "m_acked = ws_step wsClient5 (Message 0 (Some ackFrame)) m_greeted"

definition m_steady :: WebSocketManager where
  "m_steady = ws_step wsClient5 (Message 0 (Some readyFrame)) m_acked"

definition m_ready :: WebSocketManager where
  "m_ready = ws_run wsClient5 newWebSocketManager
     [CallConnect None, SocketOpened 0, Message 0 (Some helloFrame), Message 0 (Some ackFrame),
      Message 0 (Some readyFrame)]"

text \<open>
  The ready session loses its socket with code 1006; after the delay the reconnect
  creates a second socket; that attempt times out, or, the other way, the socket opens and
  the service greets it again.
\<close>

definition m_closed :: WebSocketManager where
  "m_closed = ws_step wsClient5 (SocketClosed 0 1006 []) m_steady"

definition m_retrying :: WebSocketManager where
  "m_retrying = ws_step wsClient5 ReconnectDelayOver m_closed"

definition m_given_up :: WebSocketManager where
  "m_given_up = ws_step wsClient5 (ConnectTimedOut 1) m_retrying"

definition m_reopened :: WebSocketManager where
  "m_reopened = ws_step wsClient5 (SocketOpened 1) m_retrying"

definition m_stalled :: WebSocketManager where
  "m_stalled = ws_step wsClient5 (Message 1 (Some helloFrame)) m_reopened"

text \<open>The ready session one heartbeat later, the heartbeat not yet acknowledged.\<close>

definition m_beaten :: WebSocketManager where
  "m_beaten = ws_step wsClient5 HeartbeatTick m_ready"

section \<open>Theorems about the REST dispatcher\<close>

subsection \<open>Effect lists\<close>

lemma completions_append [simp]: "completions (xs @ ys) = completions xs @ completions ys"
  by (induction xs rule: completions.induct) auto

lemma fetched_append [simp]: "fetched (xs @ ys) = fetched xs @ fetched ys"
  by (induction xs rule: fetched.induct) auto

lemma slept_append [simp]: "slept (xs @ ys) = slept xs @ slept ys"
  by (induction xs rule: slept.induct) auto

lemma settled_append [simp]: "settled b (xs @ ys) = settled b xs @ settled b ys"
  by (induction b xs rule: settled.induct) auto

lemma workers_logR [simp]: "workers (logR l s m) = workers m"
  by (simp add: logR_def)

lemma workers_sleep [simp]: "workers (sleep ms m) = workers m"
  by (simp add: sleep_def)

lemma now_logR [simp]: "now (logR l s m) = now m"
  by (simp add: logR_def)

lemma effects_unshift [simp]: "effects (unshift b r m) = effects m"
  by (simp add: unshift_def)

lemma completions_logR [simp]: "completions (effects (logR l s m)) = completions (effects m)"
  by (simp add: logR_def)

lemma completions_sleep [simp]: "completions (effects (sleep ms m)) = completions (effects m)"
  by (simp add: sleep_def)

lemma fetched_logR [simp]: "fetched (effects (logR l s m)) = fetched (effects m)"
  by (simp add: logR_def)

lemma fetched_sleep [simp]: "fetched (effects (sleep ms m)) = fetched (effects m)"
  by (simp add: sleep_def)

lemma slept_logR [simp]: "slept (effects (logR l s m)) = slept (effects m)"
  by (simp add: logR_def)

lemma length_workers_setPC [simp]: "length (workers (setPC i pc m)) = length (workers m)"
  by (simp add: setPC_def)

lemma effects_setPC [simp]: "effects (setPC i pc m) = effects m"
  by (simp add: setPC_def)

lemma workers_unshift [simp]: "workers (unshift b r m) = workers m"
  by (simp add: unshift_def)

lemma settled_snoc_Reject [simp]:
  "settled b (es @ [Reject r err]) = settled b es @ (if bucketOf r = b then [promise r] else [])"
  by simp

lemma settled_snoc_Resolve [simp]:
  "settled b (es @ [Resolve r v]) = settled b es @ (if bucketOf r = b then [promise r] else [])"
  by simp

lemma settled_snoc_LogR [simp]: "settled b (es @ [LogR l s]) = settled b es"
  by simp

lemma settled_snoc_Sleep [simp]: "settled b (es @ [Sleep ms]) = settled b es"
  by simp

lemma bucketOf_retries [simp]: "bucketOf (r\<lparr>retries := n\<rparr>) = bucketOf r"
  by (simp add: bucketOf_def)

lemma queue_of_now [simp]: "queue_of (m\<lparr>now := t\<rparr>) = queue_of m"
  by (simp add: fun_eq_iff queue_of_def)

lemma queue_of_nextPromise [simp]: "queue_of (m\<lparr>nextPromise := n\<rparr>) = queue_of m"
  by (simp add: fun_eq_iff queue_of_def)

lemma queue_of_workers [simp]: "queue_of (m\<lparr>workers := w\<rparr>) = queue_of m"
  by (simp add: fun_eq_iff queue_of_def)

lemma queue_of_effects [simp]: "queue_of (m\<lparr>effects := e\<rparr>) = queue_of m"
  by (simp add: fun_eq_iff queue_of_def)

lemma queue_of_processing [simp]: "queue_of (m\<lparr>processing := e\<rparr>) = queue_of m"
  by (simp add: fun_eq_iff queue_of_def)

lemma rest_run_Cons: "rest_run cfg m (ev # evs) = rest_run cfg (rest_step cfg ev m) evs"
  by (simp add: rest_run_def)

lemma rest_run_snoc: "rest_run cfg m (evs @ [ev]) = rest_step cfg ev (rest_run cfg m evs)"
  by (simp add: rest_run_def)

lemma pc_request_active: "pc_request pc = Some r \<Longrightarrow> pc \<noteq> Finished"
  by (cases pc) auto

lemma bucket_check_cases:
  "bucket_check i r X =
     (if bucket_limited X (wbucket (workers X ! i))
      then setPC i (AwaitBucketSleep r)
             (sleep (Some (reset (the (buckets X (wbucket (workers X ! i)))) * 1000 - now X))
                (logR DEBUG ''Rate limit hit'' X))
      else start_fetch i r X)"
  by (simp add: bucket_check_def bucket_limited_def Let_def split: option.splits)

subsection \<open>The invariant is kept by every event\<close>

lemma INVf_update:
  assumes inv: "INVf S wl P Q E" and i: "i < length wl" and act: "wpc (wl ! i) \<noteq> Finished"
    and P': "P' = (if pc = Finished then P - {wbucket (wl ! i)} else P)"
    and Q': "\<forall>b. b \<noteq> wbucket (wl ! i) \<longrightarrow> Q' b = Q b"
    and E': "\<forall>b. b \<noteq> wbucket (wl ! i) \<longrightarrow> E' b = E b"
    and q: "\<forall>r \<in> set (Q' (wbucket (wl ! i))). bucketOf r = wbucket (wl ! i)"
    and r: "\<forall>r. pc_request pc = Some r \<longrightarrow> bucketOf r = wbucket (wl ! i)"
    and line: "E' (wbucket (wl ! i)) @ hold ((wl ! i)\<lparr>wpc := pc\<rparr>) @ map promise (Q' (wbucket (wl ! i)))
               = S (wbucket (wl ! i))"
  shows "INVf S (wl[i := (wl ! i)\<lparr>wpc := pc\<rparr>]) P' Q' E'"
proof -
  let ?b = "wbucket (wl ! i)"
  let ?wl = "wl[i := (wl ! i)\<lparr>wpc := pc\<rparr>]"
  have W1: "\<forall>k < length wl. \<forall>j < length wl.
        k \<noteq> j \<and> wpc (wl ! k) \<noteq> Finished \<and> wpc (wl ! j) \<noteq> Finished \<longrightarrow>
        wbucket (wl ! k) \<noteq> wbucket (wl ! j)"
    and W2: "\<forall>k < length wl. wpc (wl ! k) \<noteq> Finished \<longrightarrow> wbucket (wl ! k) \<in> P"
    and W3a: "\<forall>b. \<forall>r \<in> set (Q b). bucketOf r = b"
    and W3b: "\<forall>k < length wl. \<forall>r. pc_request (wpc (wl ! k)) = Some r \<longrightarrow> bucketOf r = wbucket (wl ! k)"
    and F1: "\<forall>k < length wl. wpc (wl ! k) \<noteq> Finished \<longrightarrow>
        S (wbucket (wl ! k)) =
          E (wbucket (wl ! k)) @ hold (wl ! k) @ map promise (Q (wbucket (wl ! k)))"
    and F2: "\<forall>b. (\<forall>k < length wl. wpc (wl ! k) \<noteq> Finished \<longrightarrow> wbucket (wl ! k) \<noteq> b) \<longrightarrow>
        S b = E b @ map promise (Q b)"
    using inv unfolding INVf_def by simp_all
  have other: "wbucket (wl ! k) \<noteq> ?b" if "k < length wl" "k \<noteq> i" "wpc (wl ! k) \<noteq> Finished" for k
    using W1 that i act by blast
  have nth: "?wl ! k = (if k = i then (wl ! i)\<lparr>wpc := pc\<rparr> else wl ! k)" if "k < length wl" for k
    using that by (simp add: nth_list_update)
  have c1: "\<forall>k < length ?wl. \<forall>j < length ?wl.
        k \<noteq> j \<and> wpc (?wl ! k) \<noteq> Finished \<and> wpc (?wl ! j) \<noteq> Finished \<longrightarrow>
        wbucket (?wl ! k) \<noteq> wbucket (?wl ! j)"
  proof (intro allI impI)
    fix k j assume k: "k < length ?wl" and j: "j < length ?wl"
      and h: "k \<noteq> j \<and> wpc (?wl ! k) \<noteq> Finished \<and> wpc (?wl ! j) \<noteq> Finished"
    show "wbucket (?wl ! k) \<noteq> wbucket (?wl ! j)"
    proof (cases "k = i")
      case True
      with h j have "j \<noteq> i" "wpc (wl ! j) \<noteq> Finished" by (auto simp: nth)
      with other [of j] j True i show ?thesis by (auto simp: nth)
    next
      case False
      show ?thesis
      proof (cases "j = i")
        case True
        with h k False have "wpc (wl ! k) \<noteq> Finished" by (auto simp: nth)
        with other [of k] k True False i show ?thesis by (auto simp: nth)
      next
        case jf: False
        with False h k j W1 show ?thesis by (auto simp: nth)
      qed
    qed
  qed
  have c2: "\<forall>k < length ?wl. wpc (?wl ! k) \<noteq> Finished \<longrightarrow> wbucket (?wl ! k) \<in> P'"
  proof (intro allI impI)
    fix k assume k: "k < length ?wl" and h: "wpc (?wl ! k) \<noteq> Finished"
    show "wbucket (?wl ! k) \<in> P'"
    proof (cases "k = i")
      case True
      with h i have "pc \<noteq> Finished" by (simp add: nth)
      with True i W2 act show ?thesis by (simp add: nth P')
    next
      case False
      with h k have a: "wpc (wl ! k) \<noteq> Finished" by (simp add: nth)
      with other [of k] k False W2 show ?thesis by (auto simp: nth P')
    qed
  qed
  have c3: "\<forall>b. \<forall>r \<in> set (Q' b). bucketOf r = b"
    using W3a Q' q by metis
  have c4: "\<forall>k < length ?wl. \<forall>r. pc_request (wpc (?wl ! k)) = Some r \<longrightarrow> bucketOf r = wbucket (?wl ! k)"
    using W3b r by (auto simp: nth)
  have c7: "\<forall>k < length ?wl. wpc (?wl ! k) \<noteq> Finished \<longrightarrow>
        S (wbucket (?wl ! k)) =
          E' (wbucket (?wl ! k)) @ hold (?wl ! k) @ map promise (Q' (wbucket (?wl ! k)))"
  proof (intro allI impI)
    fix k assume k: "k < length ?wl" and h: "wpc (?wl ! k) \<noteq> Finished"
    show "S (wbucket (?wl ! k)) =
          E' (wbucket (?wl ! k)) @ hold (?wl ! k) @ map promise (Q' (wbucket (?wl ! k)))"
    proof (cases "k = i")
      case True
      with i line show ?thesis by (simp add: nth)
    next
      case False
      with h k have a: "wpc (wl ! k) \<noteq> Finished" by (simp add: nth)
      with other [of k] k False have "wbucket (wl ! k) \<noteq> ?b" by auto
      with a F1 k False Q' E' show ?thesis by (simp add: nth)
    qed
  qed
  have c8: "\<forall>b. (\<forall>k < length ?wl. wpc (?wl ! k) \<noteq> Finished \<longrightarrow> wbucket (?wl ! k) \<noteq> b) \<longrightarrow>
        S b = E' b @ map promise (Q' b)"
  proof (intro allI impI)
    fix b assume h: "\<forall>k < length ?wl. wpc (?wl ! k) \<noteq> Finished \<longrightarrow> wbucket (?wl ! k) \<noteq> b"
    show "S b = E' b @ map promise (Q' b)"
    proof (cases "b = ?b")
      case True
      with h i have "pc = Finished" by (auto simp: nth)
      with line True show ?thesis by (simp add: hold_def)
    next
      case False
      have "\<forall>k < length wl. wpc (wl ! k) \<noteq> Finished \<longrightarrow> wbucket (wl ! k) \<noteq> b"
      proof (intro allI impI)
        fix k assume k: "k < length wl" and a: "wpc (wl ! k) \<noteq> Finished"
        show "wbucket (wl ! k) \<noteq> b"
        proof (cases "k = i")
          case True with False show ?thesis by simp
        next
          case kf: False
          with h k a show ?thesis by (auto simp: nth)
        qed
      qed
      with F2 have "S b = E b @ map promise (Q b)" by blast
      with False Q' E' show ?thesis by simp
    qed
  qed
  show ?thesis
    unfolding INVf_def by (intro conjI c1 c2 c3 c4 c7 c8)
qed

lemma INVf_start:
  assumes inv: "INVf S wl P Q E" and b: "b \<notin> P"
  shows "INVf S (wl @ [\<lparr>wbucket = b, wpc = LoopHead\<rparr>]) (insert b P) Q E"
proof -
  let ?wl = "wl @ [\<lparr>wbucket = b, wpc = LoopHead\<rparr>]"
  have W1: "\<forall>k < length wl. \<forall>j < length wl.
        k \<noteq> j \<and> wpc (wl ! k) \<noteq> Finished \<and> wpc (wl ! j) \<noteq> Finished \<longrightarrow>
        wbucket (wl ! k) \<noteq> wbucket (wl ! j)"
    and W2: "\<forall>k < length wl. wpc (wl ! k) \<noteq> Finished \<longrightarrow> wbucket (wl ! k) \<in> P"
    and W3a: "\<forall>b. \<forall>r \<in> set (Q b). bucketOf r = b"
    and W3b: "\<forall>k < length wl. \<forall>r. pc_request (wpc (wl ! k)) = Some r \<longrightarrow> bucketOf r = wbucket (wl ! k)"
    and F1: "\<forall>k < length wl. wpc (wl ! k) \<noteq> Finished \<longrightarrow>
        S (wbucket (wl ! k)) =
          E (wbucket (wl ! k)) @ hold (wl ! k) @ map promise (Q (wbucket (wl ! k)))"
    and F2: "\<forall>b. (\<forall>k < length wl. wpc (wl ! k) \<noteq> Finished \<longrightarrow> wbucket (wl ! k) \<noteq> b) \<longrightarrow>
        S b = E b @ map promise (Q b)"
    using inv unfolding INVf_def by simp_all
  have idle: "wbucket (wl ! k) \<noteq> b" if "k < length wl" "wpc (wl ! k) \<noteq> Finished" for k
    using W2 that b by blast
  have c1: "\<forall>k < length ?wl. \<forall>j < length ?wl.
        k \<noteq> j \<and> wpc (?wl ! k) \<noteq> Finished \<and> wpc (?wl ! j) \<noteq> Finished \<longrightarrow>
        wbucket (?wl ! k) \<noteq> wbucket (?wl ! j)"
  proof (intro allI impI)
    fix k j assume k: "k < length ?wl" and j: "j < length ?wl"
      and h: "k \<noteq> j \<and> wpc (?wl ! k) \<noteq> Finished \<and> wpc (?wl ! j) \<noteq> Finished"
    consider "k < length wl" "j < length wl" | "k < length wl" "j = length wl"
      | "k = length wl" "j < length wl"
      using k j h by force
    then show "wbucket (?wl ! k) \<noteq> wbucket (?wl ! j)"
    proof cases
      case 1 with h W1 show ?thesis by (simp add: nth_append)
    next
      case 2 with h idle [of k] show ?thesis by (simp add: nth_append)
    next
      case 3 with h idle [of j] show ?thesis by (auto simp: nth_append)
    qed
  qed
  have c2: "\<forall>k < length ?wl. wpc (?wl ! k) \<noteq> Finished \<longrightarrow> wbucket (?wl ! k) \<in> insert b P"
    using W2 by (auto simp: nth_append)
  have c4: "\<forall>k < length ?wl. \<forall>r. pc_request (wpc (?wl ! k)) = Some r \<longrightarrow> bucketOf r = wbucket (?wl ! k)"
    using W3b by (auto simp: nth_append)
  have Sb: "S b = E b @ map promise (Q b)"
    using F2 idle by blast
  have c7: "\<forall>k < length ?wl. wpc (?wl ! k) \<noteq> Finished \<longrightarrow>
        S (wbucket (?wl ! k)) =
          E (wbucket (?wl ! k)) @ hold (?wl ! k) @ map promise (Q (wbucket (?wl ! k)))"
    using F1 Sb by (auto simp: nth_append hold_def)
  have c8: "\<forall>b'. (\<forall>k < length ?wl. wpc (?wl ! k) \<noteq> Finished \<longrightarrow> wbucket (?wl ! k) \<noteq> b') \<longrightarrow>
        S b' = E b' @ map promise (Q b')"
  proof (intro allI impI)
    fix b' assume h: "\<forall>k < length ?wl. wpc (?wl ! k) \<noteq> Finished \<longrightarrow> wbucket (?wl ! k) \<noteq> b'"
    have "\<forall>k < length wl. wpc (wl ! k) \<noteq> Finished \<longrightarrow> wbucket (wl ! k) \<noteq> b'"
    proof (intro allI impI)
      fix k assume "k < length wl" "wpc (wl ! k) \<noteq> Finished"
      with h [rule_format, of k] show "wbucket (wl ! k) \<noteq> b'" by (simp add: nth_append)
    qed
    with F2 show "S b' = E b' @ map promise (Q b')" by blast
  qed
  show ?thesis
    unfolding INVf_def by (intro conjI c1 c2 W3a c4 c7 c8)
qed

lemma INVf_push:
  assumes inv: "INVf S wl P Q E" and b: "bucketOf r = b"
  shows "INVf (S(b := S b @ [promise r])) wl P (Q(b := Q b @ [r])) E"
  using assms unfolding INVf_def
  by (intro conjI) (simp_all, blast+)

lemma INV_update:
  assumes inv: "INV S m" and i: "i < length (workers m)" and act: "wpc (workers m ! i) \<noteq> Finished"
    and ws: "workers m' = (workers m)[i := (workers m ! i)\<lparr>wpc := pc\<rparr>]"
    and P: "processing m' = (if pc = Finished then processing m - {wbucket (workers m ! i)} else processing m)"
    and Q: "\<forall>b. b \<noteq> wbucket (workers m ! i) \<longrightarrow> queue_of m' b = queue_of m b"
    and E: "\<forall>b. b \<noteq> wbucket (workers m ! i) \<longrightarrow> settled b (effects m') = settled b (effects m)"
    and q: "\<forall>r \<in> set (queue_of m' (wbucket (workers m ! i))). bucketOf r = wbucket (workers m ! i)"
    and r: "\<forall>r. pc_request pc = Some r \<longrightarrow> bucketOf r = wbucket (workers m ! i)"
    and line: "settled (wbucket (workers m ! i)) (effects m')
                 @ (case pc_request pc of None \<Rightarrow> [] | Some r \<Rightarrow> [promise r])
                 @ map promise (queue_of m' (wbucket (workers m ! i)))
               = S (wbucket (workers m ! i))"
  shows "INV S m'"
  unfolding INV_def ws
  by (rule INVf_update [OF inv [unfolded INV_def] i act P Q E q r])
     (simp add: hold_def line)

lemma INV_line:
  assumes "INV S m" "i < length (workers m)" "wpc (workers m ! i) \<noteq> Finished"
  shows "S (wbucket (workers m ! i)) =
           settled (wbucket (workers m ! i)) (effects m) @ hold (workers m ! i)
             @ map promise (queue_of m (wbucket (workers m ! i)))"
  using assms unfolding INV_def INVf_def by blast

lemma INV_queue:
  assumes "INV S m" "r \<in> set (queue_of m b)"
  shows "bucketOf r = b"
  using assms unfolding INV_def INVf_def by blast

lemma INV_request:
  assumes "INV S m" "i < length (workers m)" "pc_request (wpc (workers m ! i)) = Some r"
  shows "bucketOf r = wbucket (workers m ! i)"
  using assms unfolding INV_def INVf_def by blast

lemma INV_unique:
  assumes "INV S m" "i < length (workers m)" "j < length (workers m)"
    "wpc (workers m ! i) \<noteq> Finished" "wpc (workers m ! j) \<noteq> Finished"
    "wbucket (workers m ! i) = wbucket (workers m ! j)"
  shows "i = j"
  using assms unfolding INV_def INVf_def by blast

lemma INV_prefix:
  assumes "INV S m"
  shows "\<exists>rest. S b = settled b (effects m) @ rest"
proof (cases "\<forall>i < length (workers m). wpc (workers m ! i) \<noteq> Finished \<longrightarrow> wbucket (workers m ! i) \<noteq> b")
  case True
  with assms have "S b = settled b (effects m) @ map promise (queue_of m b)"
    unfolding INV_def INVf_def by blast
  then show ?thesis by blast
next
  case False
  then obtain i where "i < length (workers m)" "wpc (workers m ! i) \<noteq> Finished" "wbucket (workers m ! i) = b"
    by blast
  with INV_line [OF assms, of i] show ?thesis by blast
qed

lemma INV_bucket_check:
  assumes inv: "INV S m" and i: "i < length (workers m)" and act: "wpc (workers m ! i) \<noteq> Finished"
    and fr: "frame (wbucket (workers m ! i)) m X"
    and q: "\<forall>x \<in> set (queue_of X (wbucket (workers m ! i))). bucketOf x = wbucket (workers m ! i)"
    and r: "bucketOf r = wbucket (workers m ! i)"
    and line: "settled (wbucket (workers m ! i)) (effects X) @ [promise r]
                 @ map promise (queue_of X (wbucket (workers m ! i))) = S (wbucket (workers m ! i))"
  shows "INV S (bucket_check i r X)"
proof (cases "bucket_limited X (wbucket (workers X ! i))")
  case True
  have eq: "bucket_check i r X =
      setPC i (AwaitBucketSleep r)
        (sleep (Some (reset (the (buckets X (wbucket (workers X ! i)))) * 1000 - now X))
           (logR DEBUG ''Rate limit hit'' X))"
    using True by (simp add: bucket_check_cases)
  show ?thesis
    unfolding eq
    by (rule INV_update [OF inv i act])
       (use fr q r line in \<open>auto simp: frame_def setPC_def logR_def sleep_def queue_of_def\<close>)
next
  case False
  have eq: "bucket_check i r X = start_fetch i r X"
    using False by (simp add: bucket_check_cases)
  show ?thesis
    unfolding eq start_fetch_def
    by (rule INV_update [OF inv i act])
       (use fr q r line in \<open>auto simp: frame_def setPC_def queue_of_def\<close>)
qed

lemma frame_refl: "frame b m m"
  by (simp add: frame_def)

lemma frame_wbucket: "frame b m X \<Longrightarrow> wbucket (workers X ! i) = wbucket (workers m ! i)"
  by (simp add: frame_def)

lemma INV_loop_head:
  assumes inv: "INV S m" and i: "i < length (workers m)" and act: "wpc (workers m ! i) \<noteq> Finished"
    and fr: "frame (wbucket (workers m ! i)) m X"
    and q: "\<forall>x \<in> set (queue_of X (wbucket (workers m ! i))). bucketOf x = wbucket (workers m ! i)"
    and line: "settled (wbucket (workers m ! i)) (effects X)
                 @ map promise (queue_of X (wbucket (workers m ! i))) = S (wbucket (workers m ! i))"
  shows "INV S (loop_head i X)"
proof -
  let ?b = "wbucket (workers m ! i)"
  have wb: "wbucket (workers X ! i) = ?b"
    using fr by (rule frame_wbucket)
  show ?thesis
  proof (cases "queue_of X ?b")
    case Nil
    have eq: "loop_head i X = setPC i Finished (X\<lparr>processing := processing X - {?b}\<rparr>)"
      using Nil by (simp add: loop_head_def wb)
    show ?thesis
      unfolding eq
      by (rule INV_update [OF inv i act])
         (use fr line Nil in \<open>auto simp: frame_def setPC_def queue_of_def\<close>)
  next
    case (Cons r rest)
    let ?X1 = "X\<lparr>queues := (queues X)(?b \<mapsto> rest)\<rparr>"
    have rb: "bucketOf r = ?b" and restb: "\<forall>x \<in> set rest. bucketOf x = ?b"
      using q Cons by auto
    have line1: "settled ?b (effects X) @ [promise r] @ map promise rest = S ?b"
      using line Cons by simp
    show ?thesis
    proof (cases "globalRemaining X \<le> 0 \<and> now X < globalReset X")
      case True
      have eq: "loop_head i X =
          setPC i (AwaitGlobalSleep r)
            (sleep (Some (globalReset X - now X)) (logR WARN ''Global rate limit hit'' ?X1))"
        using Cons True by (simp add: loop_head_def wb Let_def)
      show ?thesis
        unfolding eq
        by (rule INV_update [OF inv i act])
           (use fr rb restb line1 in \<open>auto simp: frame_def setPC_def logR_def sleep_def queue_of_def\<close>)
    next
      case False
      have eq: "loop_head i X = bucket_check i r ?X1"
        using Cons False by (auto simp add: loop_head_def wb Let_def)
      have fr1: "frame ?b m ?X1"
        using fr by (simp add: frame_def queue_of_def)
      show ?thesis
        unfolding eq
        by (rule INV_bucket_check [OF inv i act fr1])
           (use rb restb line1 in \<open>simp_all add: queue_of_def\<close>)
    qed
  qed
qed

lemma INV_handle_error:
  assumes inv: "INV S m" and i: "i < length (workers m)"
    and pc: "pc_request (wpc (workers m ! i)) = Some r"
  shows "INV S (handle_error cfg i r err m)"
proof -
  let ?b = "wbucket (workers m ! i)"
  have act: "wpc (workers m ! i) \<noteq> Finished"
    using pc by (rule pc_request_active)
  have rb: "bucketOf r = ?b"
    using inv i pc by (rule INV_request)
  have line: "S ?b = settled ?b (effects m) @ [promise r] @ map promise (queue_of m ?b)"
    using INV_line [OF inv i act] pc by (simp add: hold_def)
  have qs: "\<forall>x \<in> set (queue_of m ?b). bucketOf x = ?b"
    using inv INV_queue by blast
  consider (limited) "err_status err = 429"
    | (retry) "err_status err \<noteq> 429" "retries r < rateLimitRetryLimit cfg"
    | (reject) "err_status err \<noteq> 429" "\<not> retries r < rateLimitRetryLimit cfg"
    by blast
  then show ?thesis
  proof cases
    case limited
    have eq: "handle_error cfg i r err m =
        setPC i (AwaitRetrySleep r)
          (sleep (retryAfter err) (logR WARN ''Rate limited, retrying'' m))"
      using limited by (simp add: handle_error_def)
    show ?thesis
      unfolding eq
      by (rule INV_update [OF inv i act])
         (use rb line qs in \<open>auto simp: setPC_def logR_def sleep_def queue_of_def\<close>)
  next
    case retry
    let ?X = "unshift ?b (r\<lparr>retries := retries r + 1\<rparr>) (logR DEBUG ''Retrying request'' m)"
    have eq: "handle_error cfg i r err m = loop_head i ?X"
      using retry by (simp add: handle_error_def Let_def)
    have fr: "frame ?b m ?X"
      by (simp add: frame_def unshift_def logR_def queue_of_def)
    have q': "\<forall>x \<in> set (queue_of ?X ?b). bucketOf x = ?b"
      using rb qs by (simp add: unshift_def logR_def queue_of_def)
    have line': "settled ?b (effects ?X) @ map promise (queue_of ?X ?b) = S ?b"
      using line by (simp add: unshift_def logR_def queue_of_def)
    show ?thesis
      unfolding eq by (rule INV_loop_head [OF inv i act fr q' line'])
  next
    case reject
    let ?X = "m\<lparr>effects := effects m @ [Reject r err]\<rparr>"
    have eq: "handle_error cfg i r err m = loop_head i ?X"
      using reject by (simp add: handle_error_def Let_def)
    have fr: "frame ?b m ?X"
      using rb by (simp add: frame_def queue_of_def)
    show ?thesis
      unfolding eq
      by (rule INV_loop_head [OF inv i act fr])
         (use rb line qs in \<open>simp_all add: queue_of_def\<close>)
  qed
qed

lemma INV_resolve:
  assumes inv: "INV S X" and i: "i < length (workers X)"
    and pc: "pc_request (wpc (workers X ! i)) = Some r"
    and m: "workers m = workers X" "processing m = processing X" "queue_of m = queue_of X"
      "\<forall>b. settled b (effects m) = settled b (effects X)"
  shows "INV S (resolve i r v m)"
proof -
  let ?b = "wbucket (workers X ! i)"
  have act: "wpc (workers X ! i) \<noteq> Finished"
    using pc by (rule pc_request_active)
  have rb: "bucketOf r = ?b"
    using inv i pc by (rule INV_request)
  have line: "S ?b = settled ?b (effects X) @ [promise r] @ map promise (queue_of X ?b)"
    using INV_line [OF inv i act] pc by (simp add: hold_def)
  have qs: "\<forall>x \<in> set (queue_of X ?b). bucketOf x = ?b"
    using inv INV_queue by blast
  let ?Y = "m\<lparr>effects := effects m @ [Resolve r v]\<rparr>"
  have qY: "queue_of ?Y = queue_of X"
    using m(3) by (simp add: fun_eq_iff queue_of_def)
  have fr: "frame ?b X ?Y"
    using rb m qY by (simp add: frame_def)
  have q': "\<forall>x \<in> set (queue_of ?Y ?b). bucketOf x = ?b"
    using qs qY by simp
  have line': "settled ?b (effects ?Y) @ map promise (queue_of ?Y ?b) = S ?b"
    using line rb m(4) qY by simp
  show ?thesis
    unfolding resolve_def by (rule INV_loop_head [OF inv i act fr q' line'])
qed

lemma INV_timer_fired:
  assumes inv: "INV S m" and i: "i < length (workers m)"
  shows "INV S (timer_fired i m)"
proof -
  let ?b = "wbucket (workers m ! i)"
  have qs: "\<forall>x \<in> set (queue_of m ?b). bucketOf x = ?b"
    using inv INV_queue by blast
  show ?thesis
  proof (cases "wpc (workers m ! i)")
    case (AwaitGlobalSleep r)
    have act: "wpc (workers m ! i) \<noteq> Finished" using AwaitGlobalSleep by simp
    have rb: "bucketOf r = ?b"
      using INV_request [OF inv i] AwaitGlobalSleep by simp
    have line: "settled ?b (effects m) @ [promise r] @ map promise (queue_of m ?b) = S ?b"
      using INV_line [OF inv i act] AwaitGlobalSleep by (simp add: hold_def)
    have eq: "timer_fired i m = bucket_check i r m"
      using AwaitGlobalSleep by (simp add: timer_fired_def)
    show ?thesis
      unfolding eq by (rule INV_bucket_check [OF inv i act frame_refl qs rb line])
  next
    case (AwaitBucketSleep r)
    have act: "wpc (workers m ! i) \<noteq> Finished" using AwaitBucketSleep by simp
    have rb: "bucketOf r = ?b"
      using INV_request [OF inv i] AwaitBucketSleep by simp
    have line: "settled ?b (effects m) @ [promise r] @ map promise (queue_of m ?b) = S ?b"
      using INV_line [OF inv i act] AwaitBucketSleep by (simp add: hold_def)
    have eq: "timer_fired i m = start_fetch i r m"
      using AwaitBucketSleep by (simp add: timer_fired_def)
    show ?thesis
      unfolding eq start_fetch_def
      by (rule INV_update [OF inv i act])
         (use rb line qs in \<open>auto simp: setPC_def queue_of_def\<close>)
  next
    case (AwaitRetrySleep r)
    have act: "wpc (workers m ! i) \<noteq> Finished" using AwaitRetrySleep by simp
    have rb: "bucketOf r = ?b"
      using INV_request [OF inv i] AwaitRetrySleep by simp
    have line: "settled ?b (effects m) @ [promise r] @ map promise (queue_of m ?b) = S ?b"
      using INV_line [OF inv i act] AwaitRetrySleep by (simp add: hold_def)
    let ?X = "unshift ?b r m"
    have eq: "timer_fired i m = loop_head i ?X"
      using AwaitRetrySleep by (simp add: timer_fired_def)
    have fr: "frame ?b m ?X"
      by (simp add: frame_def unshift_def queue_of_def)
    have q': "\<forall>x \<in> set (queue_of ?X ?b). bucketOf x = ?b"
      using rb qs by (simp add: unshift_def queue_of_def)
    have line': "settled ?b (effects ?X) @ map promise (queue_of ?X ?b) = S ?b"
      using line by (simp add: unshift_def queue_of_def)
    show ?thesis
      unfolding eq by (rule INV_loop_head [OF inv i act fr q' line'])
  qed (use inv in \<open>simp_all add: timer_fired_def\<close>)
qed

lemma updateRateLimits_frame:
  "workers (updateRateLimits response b m) = workers m
   \<and> processing (updateRateLimits response b m) = processing m
   \<and> queue_of (updateRateLimits response b m) = queue_of m
   \<and> (\<forall>b'. settled b' (effects (updateRateLimits response b m)) = settled b' (effects m))"
  by (simp add: updateRateLimits_def logR_def Let_def fun_eq_iff queue_of_def)

lemma INV_fetch_settled:
  assumes inv: "INV S m" and i: "i < length (workers m)"
  shows "INV S (fetch_settled cfg i res m)"
proof (cases "wpc (workers m ! i)")
  case (AwaitFetch r)
  let ?b = "wbucket (workers m ! i)"
  have act: "wpc (workers m ! i) \<noteq> Finished" using AwaitFetch by simp
  have pc: "pc_request (wpc (workers m ! i)) = Some r" using AwaitFetch by simp
  have rb: "bucketOf r = ?b"
    using INV_request [OF inv i pc] .
  have line: "settled ?b (effects m) @ [promise r] @ map promise (queue_of m ?b) = S ?b"
    using INV_line [OF inv i act] AwaitFetch by (simp add: hold_def)
  have qs: "\<forall>x \<in> set (queue_of m ?b). bucketOf x = ?b"
    using inv INV_queue by blast
  show ?thesis
  proof (cases res)
    case None
    then have eq: "fetch_settled cfg i res m = handle_error cfg i r (APIError 0 None) m"
      using AwaitFetch by (simp add: fetch_settled_def)
    show ?thesis unfolding eq by (rule INV_handle_error [OF inv i pc])
  next
    case (Some response)
    let ?m1 = "updateRateLimits response ?b m"
    note fr = updateRateLimits_frame [of response ?b m]
    have waits: "INV S (setPC i pc' ?m1)" if "pc_request pc' = Some r" for pc'
      by (rule INV_update [OF inv i act])
         (use rb line qs fr that pc_request_active [OF that] in \<open>auto simp: setPC_def\<close>)
    have settles: "INV S (resolve i r JNull ?m1)"
      by (rule INV_resolve [OF inv i pc]) (use fr in simp_all)
    have eq: "fetch_settled cfg i res m =
        (if \<not> ok response then setPC i (AwaitErrorBody r response) ?m1
         else if announces_json response then setPC i (AwaitJson r) ?m1
         else if status response = 204 then resolve i r JNull ?m1
         else setPC i (AwaitText r) ?m1)"
      using AwaitFetch Some rb by (simp add: fetch_settled_def bucketOf_def Let_def)
    show ?thesis
      unfolding eq using waits [of "AwaitErrorBody r response"] waits [of "AwaitJson r"]
        waits [of "AwaitText r"] settles
      by simp
  qed
qed (use inv in \<open>simp_all add: fetch_settled_def\<close>)

lemma INV_json_read:
  assumes inv: "INV S m" and i: "i < length (workers m)"
  shows "INV S (json_read cfg i res m)"
proof (cases "wpc (workers m ! i)")
  case (AwaitErrorBody r response)
  have pc: "pc_request (wpc (workers m ! i)) = Some r" using AwaitErrorBody by simp
  show ?thesis
    using AwaitErrorBody INV_handle_error [OF inv i pc]
    by (simp add: json_read_def split: option.splits)
next
  case (AwaitJson r)
  have pc: "pc_request (wpc (workers m ! i)) = Some r" using AwaitJson by simp
  have "INV S (resolve i r v m)" for v
    by (rule INV_resolve [OF inv i pc]) simp_all
  then show ?thesis
    using AwaitJson INV_handle_error [OF inv i pc]
    by (simp add: json_read_def split: option.splits)
qed (use inv in \<open>simp_all add: json_read_def\<close>)

lemma INV_text_read:
  assumes inv: "INV S m" and i: "i < length (workers m)"
  shows "INV S (text_read cfg i res m)"
proof (cases "wpc (workers m ! i)")
  case (AwaitText r)
  have pc: "pc_request (wpc (workers m ! i)) = Some r" using AwaitText by simp
  have "INV S (resolve i r v m)" for v
    by (rule INV_resolve [OF inv i pc]) simp_all
  then show ?thesis
    using AwaitText INV_handle_error [OF inv i pc]
    by (simp add: text_read_def split: option.splits)
qed (use inv in \<open>simp_all add: text_read_def\<close>)

lemma INV_queueRequest:
  assumes inv: "INV S m"
  shows "INV (S(bucketOf r := S (bucketOf r) @ [promise r])) (queueRequest r m)"
proof -
  let ?b = "bucketOf r"
  let ?S = "S(?b := S ?b @ [promise r])"
  let ?m2 = "m\<lparr>queues := (queues m)(?b \<mapsto> queue_of m ?b @ [r])\<rparr>"
  have eq: "queueRequest r m = processQueue ?b ?m2"
    by (simp add: queueRequest_def Let_def bucketOf_def queue_of_def)
  have q2: "(\<lambda>b. queue_of ?m2 b) = (\<lambda>b. queue_of m b)(?b := queue_of m ?b @ [r])"
    by (simp add: fun_eq_iff queue_of_def)
  have inv2: "INV ?S ?m2"
    unfolding INV_def q2 using INVf_push [OF inv [unfolded INV_def], of r ?b] by simp
  show ?thesis
  proof (cases "?b \<in> processing m")
    case True
    then show ?thesis using inv2 by (simp add: eq processQueue_def)
  next
    case False
    let ?n = "length (workers m)"
    let ?X = "?m2\<lparr>processing := insert ?b (processing ?m2),
                   workers := workers ?m2 @ [\<lparr>wbucket = ?b, wpc = LoopHead\<rparr>]\<rparr>"
    have eq2: "queueRequest r m = loop_head ?n ?X"
      using False by (simp add: eq processQueue_def)
    have qX: "(\<lambda>b. queue_of ?X b) = (\<lambda>b. queue_of ?m2 b)"
      by (simp add: fun_eq_iff queue_of_def)
    have invX: "INV ?S ?X"
      unfolding INV_def qX
      using INVf_start [OF inv2 [unfolded INV_def], of ?b] False by simp
    have n: "?n < length (workers ?X)" by simp
    have wn: "workers ?X ! ?n = \<lparr>wbucket = ?b, wpc = LoopHead\<rparr>" by simp
    have act: "wpc (workers ?X ! ?n) \<noteq> Finished" by simp
    have wb: "wbucket (workers ?X ! ?n) = ?b" by simp
    have q': "\<forall>x \<in> set (queue_of ?X (wbucket (workers ?X ! ?n))). bucketOf x = wbucket (workers ?X ! ?n)"
      using invX INV_queue by blast
    have line': "settled (wbucket (workers ?X ! ?n)) (effects ?X)
                   @ map promise (queue_of ?X (wbucket (workers ?X ! ?n))) = ?S (wbucket (workers ?X ! ?n))"
      using INV_line [OF invX n act] by (simp add: hold_def)
    show ?thesis
      unfolding eq2 by (rule INV_loop_head [OF invX n act frame_refl q' line'])
  qed
qed

lemma INV_step:
  assumes inv: "INV S m"
  shows "INV (case ev of
                Request ep options \<Rightarrow>
                  S(bucket_of_call ep options := S (bucket_of_call ep options) @ [nextPromise m])
              | _ \<Rightarrow> S)
             (rest_step cfg ev m)"
proof (cases ev)
  case (Request ep options)
  have inv': "INV S (m\<lparr>nextPromise := Suc (nextPromise m)\<rparr>)"
    using inv by (simp add: INV_def)
  show ?thesis
    using INV_queueRequest [OF inv', of "queued ep options (nextPromise m)"]
    by (simp add: Request rest_step_def request_def bucketOf_def bucket_of_call_def queued_def)
next
  case (Advance dt)
  have "INV S (m\<lparr>now := now m + int dt\<rparr>)"
    using inv by (simp add: INV_def)
  then show ?thesis by (simp add: Advance rest_step_def)
next
  case (TimerFired i)
  then show ?thesis using inv INV_timer_fired by (simp add: rest_step_def)
next
  case (FetchSettled i res)
  then show ?thesis using inv INV_fetch_settled by (simp add: rest_step_def)
next
  case (JsonRead i res)
  then show ?thesis using inv INV_json_read by (simp add: rest_step_def)
next
  case (TextRead i res)
  then show ?thesis using inv INV_text_read by (simp add: rest_step_def)
qed

lemma nextPromise_loop_head [simp]: "nextPromise (loop_head i m) = nextPromise m"
  by (simp add: loop_head_def bucket_check_def start_fetch_def setPC_def logR_def sleep_def Let_def
      split: list.splits option.splits)

lemma nextPromise_handle_error [simp]: "nextPromise (handle_error cfg i r err m) = nextPromise m"
  by (simp add: handle_error_def setPC_def logR_def sleep_def unshift_def Let_def)

lemma nextPromise_resolve [simp]: "nextPromise (resolve i r v m) = nextPromise m"
  by (simp add: resolve_def)

lemma nextPromise_updateRateLimits [simp]:
  "nextPromise (updateRateLimits response b m) = nextPromise m"
  by (simp add: updateRateLimits_def logR_def Let_def)

lemma nextPromise_step:
  "nextPromise (rest_step cfg ev m) =
     (case ev of Request ep options \<Rightarrow> Suc (nextPromise m) | _ \<Rightarrow> nextPromise m)"
  by (simp add: rest_step_def request_def queued_def queueRequest_def processQueue_def timer_fired_def
      fetch_settled_def json_read_def text_read_def bucket_check_def start_fetch_def setPC_def
      logR_def sleep_def unshift_def Let_def
      split: RestEvent.splits PC.splits option.splits)

lemma INV_run:
  assumes "INV S m"
  shows "INV (\<lambda>b. S b @ submitted b (nextPromise m) evs) (rest_run cfg m evs)"
  using assms
proof (induction evs arbitrary: S m)
  case Nil
  then show ?case by (simp add: rest_run_def)
next
  case (Cons ev evs)
  let ?S = "case ev of
                Request ep options \<Rightarrow>
                  S(bucket_of_call ep options := S (bucket_of_call ep options) @ [nextPromise m])
              | _ \<Rightarrow> S"
  have step: "INV ?S (rest_step cfg ev m)"
    using Cons.prems by (rule INV_step)
  have eq: "(\<lambda>b. ?S b @ submitted b (nextPromise (rest_step cfg ev m)) evs) =
            (\<lambda>b. S b @ submitted b (nextPromise m) (ev # evs))"
    by (cases ev) (auto simp: fun_eq_iff nextPromise_step bucket_of_call_def)
  show ?case
    using Cons.IH [OF step] unfolding eq rest_run_Cons .
qed

lemma INV_new: "INV (\<lambda>b. []) (newRESTManager t0)"
  by (simp add: INV_def INVf_def newRESTManager_def queue_of_def)

lemma INV_reachable:
  "INV (\<lambda>b. submitted b 0 evs) (rest_run cfg (newRESTManager t0) evs)"
  using INV_run [OF INV_new, of t0 evs cfg] by (simp add: newRESTManager_def)

lemmas rest_defs =
  rest_run_def rest_step_def request_def queued_def queueRequest_def processQueue_def loop_head_def
  bucket_check_def start_fetch_def setPC_def queue_of_def fetch_settled_def json_read_def
  text_read_def resolve_def handle_error_def timer_fired_def unshift_def updateRateLimits_def
  logR_def sleep_def getBucketId_def newRESTManager_def ok_def announces_json_def Let_def

lemmas parse_defs = retryAfter_def getProp_def parseInt_def unsigned_def whitespace_def digit_def

subsection \<open>What a handler does to the effect lists\<close>




lemma global_limited_frame [simp]:
  "global_limited (logR l s m) = global_limited m"
  "global_limited (sleep ms m) = global_limited m"
  "global_limited (unshift b r m) = global_limited m"
  "global_limited (setPC i pc m) = global_limited m"
  "global_limited (m\<lparr>effects := e\<rparr>) = global_limited m"
  "global_limited (m\<lparr>queues := q\<rparr>) = global_limited m"
  "global_limited (m\<lparr>workers := w\<rparr>) = global_limited m"
  "global_limited (m\<lparr>processing := p\<rparr>) = global_limited m"
  "global_limited (m\<lparr>nextPromise := n\<rparr>) = global_limited m"
  by (simp_all add: global_limited_def logR_def sleep_def unshift_def setPC_def)

lemma bucket_limited_frame [simp]:
  "bucket_limited (logR l s m) = bucket_limited m"
  "bucket_limited (sleep ms m) = bucket_limited m"
  "bucket_limited (unshift b r m) = bucket_limited m"
  "bucket_limited (setPC i pc m) = bucket_limited m"
  "bucket_limited (m\<lparr>effects := e\<rparr>) = bucket_limited m"
  "bucket_limited (m\<lparr>queues := q\<rparr>) = bucket_limited m"
  "bucket_limited (m\<lparr>workers := w\<rparr>) = bucket_limited m"
  "bucket_limited (m\<lparr>processing := p\<rparr>) = bucket_limited m"
  "bucket_limited (m\<lparr>nextPromise := n\<rparr>) = bucket_limited m"
  by (simp_all add: fun_eq_iff bucket_limited_def logR_def sleep_def unshift_def setPC_def
      split: option.splits)

lemma loop_head_takes:
  assumes "i < length (workers X)" "queue_of X (wbucket (workers X ! i)) = r # rest"
  shows "(global_limited X \<longrightarrow>
            wpc (workers (loop_head i X) ! i) = AwaitGlobalSleep r
          \<and> fetched (effects (loop_head i X)) = fetched (effects X)
          \<and> slept (effects (loop_head i X)) = slept (effects X) @ [Some (globalReset X - now X)])
       \<and> (\<not> global_limited X \<and> bucket_limited X (wbucket (workers X ! i)) \<longrightarrow>
            wpc (workers (loop_head i X) ! i) = AwaitBucketSleep r
          \<and> fetched (effects (loop_head i X)) = fetched (effects X)
          \<and> slept (effects (loop_head i X)) =
              slept (effects X) @
                [Some (reset (the (buckets X (wbucket (workers X ! i)))) * 1000 - now X)])
       \<and> (\<not> global_limited X \<and> \<not> bucket_limited X (wbucket (workers X ! i)) \<longrightarrow>
            wpc (workers (loop_head i X) ! i) = AwaitFetch r
          \<and> fetched (effects (loop_head i X)) = fetched (effects X) @ [r]
          \<and> slept (effects (loop_head i X)) = slept (effects X))"
proof -
  let ?b = "wbucket (workers X ! i)"
  let ?X1 = "X\<lparr>queues := (queues X)(?b \<mapsto> rest)\<rparr>"
  have eq: "loop_head i X =
      (if global_limited X
       then setPC i (AwaitGlobalSleep r)
              (sleep (Some (globalReset X - now X)) (logR WARN ''Global rate limit hit'' ?X1))
       else bucket_check i r ?X1)"
    using assms(2) by (simp add: loop_head_def global_limited_def Let_def)
  show ?thesis
    using assms(1)
    by (simp add: eq bucket_check_cases start_fetch_def setPC_def logR_def sleep_def)
qed




lemma handle_error_limited:
  assumes "i < length (workers X)" "err_status err = 429"
  shows "handle_error cfg i r err X =
           setPC i (AwaitRetrySleep r) (sleep (retryAfter err) (logR WARN ''Rate limited, retrying'' X))"
  using assms by (simp add: handle_error_def)

lemma retryAfter_cases:
  "(getProp ''retry_after'' v = None \<longrightarrow> retryAfter (APIError s (Some v)) = Some 1000)
   \<and> (\<forall>x. getProp ''retry_after'' v = Some x \<and> \<not> truthyJ x \<longrightarrow>
         retryAfter (APIError s (Some v)) = Some 1000)
   \<and> (\<forall>x. getProp ''retry_after'' v = Some x \<and> truthyJ x \<longrightarrow>
         retryAfter (APIError s (Some v)) = parseInt (toStringJ x))"
proof -
  have d: "parseInt ''1000'' = Some 1000"
    by (simp add: parseInt_def unsigned_def whitespace_def digit_def)
  show ?thesis by (simp add: retryAfter_def d)
qed

subsection \<open>The states of the examples\<close>

lemma m_fetching_state:
  "workers m_fetching = [\<lparr>wbucket = ''GET:/users/1'', wpc = AwaitFetch request1\<rparr>]
   \<and> fetched (effects m_fetching) = [request1] \<and> completions (effects m_fetching) = []
   \<and> slept (effects m_fetching) = [] \<and> now m_fetching = 0
   \<and> queue_of m_fetching ''GET:/users/1'' = []"
  by (simp add: m_fetching_def request1_def rest_defs getOptions_def)




subsection \<open>What a response does\<close>

lemma updateRateLimits_effects [simp]:
  "completions (effects (updateRateLimits response b m)) = completions (effects m)"
  "fetched (effects (updateRateLimits response b m)) = fetched (effects m)"
  "slept (effects (updateRateLimits response b m)) = slept (effects m)"
  "workers (updateRateLimits response b m) = workers m"
  "now (updateRateLimits response b m) = now m"
  by (simp_all add: updateRateLimits_def logR_def Let_def)

lemma response_settled:
  assumes "i < length (workers m)" "wpc (workers m ! i) = AwaitFetch r"
  shows "rest_step cfg (FetchSettled i (Some response)) m =
     (if \<not> ok response
      then setPC i (AwaitErrorBody r response) (updateRateLimits response (bucketOf r) m)
      else if announces_json response
      then setPC i (AwaitJson r) (updateRateLimits response (bucketOf r) m)
      else if status response = 204
      then resolve i r JNull (updateRateLimits response (bucketOf r) m)
      else setPC i (AwaitText r) (updateRateLimits response (bucketOf r) m))"
  using assms by (simp add: rest_step_def fetch_settled_def bucketOf_def Let_def)



lemma text_response_settled:
  assumes "i < length (workers m)" "wpc (workers m ! i) = AwaitFetch r" "ok response"
    "\<not> announces_json response" "status response \<noteq> 204"
  shows "i < length (workers (rest_step cfg (FetchSettled i (Some response)) m))
       \<and> wpc (workers (rest_step cfg (FetchSettled i (Some response)) m) ! i) = AwaitText r
       \<and> completions (effects (rest_step cfg (FetchSettled i (Some response)) m)) = completions (effects m)
       \<and> fetched (effects (rest_step cfg (FetchSettled i (Some response)) m)) = fetched (effects m)"
  using assms by (simp add: response_settled setPC_def)

lemma error_body_read:
  assumes "i < length (workers X)" "wpc (workers X ! i) = AwaitErrorBody r response"
  shows "rest_step cfg (JsonRead i body) X = handle_error cfg i r (thrown response body) X"
  using assms by (simp add: rest_step_def json_read_def)

lemma json_body_read:
  assumes "i < length (workers X)" "wpc (workers X ! i) = AwaitJson r"
  shows "rest_step cfg (JsonRead i (Some v)) X = resolve i r v X"
    and "rest_step cfg (JsonRead i None) X = handle_error cfg i r (APIError 0 None) X"
  using assms by (simp_all add: rest_step_def json_read_def)

lemma text_body_read:
  assumes "i < length (workers X)" "wpc (workers X ! i) = AwaitText r"
  shows "rest_step cfg (TextRead i (Some s)) X = resolve i r (JString s) X"
    and "rest_step cfg (TextRead i None) X = handle_error cfg i r (APIError 0 None) X"
  using assms by (simp_all add: rest_step_def text_read_def)


subsection \<open>Responses that are not successes\<close>




subsection \<open>Rate-limited responses\<close>






subsection \<open>Admission\<close>

lemma wbucket_setPC [simp]: "wbucket (workers (setPC i pc m) ! j) = wbucket (workers m ! j)"
  by (cases "i < length (workers m)"; cases "j = i") (simp_all add: setPC_def list_update_beyond)

lemma limits_start_fetch [simp]:
  "global_limited (start_fetch i r X) = global_limited X"
  "bucket_limited (start_fetch i r X) = bucket_limited X"
  "length (workers (start_fetch i r X)) = length (workers X)"
  "wbucket (workers (start_fetch i r X) ! j) = wbucket (workers X ! j)"
  by (simp_all add: start_fetch_def)

lemma limits_bucket_check [simp]:
  "global_limited (bucket_check i r X) = global_limited X"
  "bucket_limited (bucket_check i r X) = bucket_limited X"
  "length (workers (bucket_check i r X)) = length (workers X)"
  "wbucket (workers (bucket_check i r X) ! j) = wbucket (workers X ! j)"
  by (simp_all add: bucket_check_cases)

lemma limits_loop_head [simp]:
  "global_limited (loop_head i X) = global_limited X"
  "bucket_limited (loop_head i X) = bucket_limited X"
  "length (workers (loop_head i X)) = length (workers X)"
  "wbucket (workers (loop_head i X) ! j) = wbucket (workers X ! j)"
  by (simp_all add: loop_head_def Let_def split: list.splits)

lemma limits_handle_error [simp]:
  "global_limited (handle_error cfg i r err X) = global_limited X"
  "bucket_limited (handle_error cfg i r err X) = bucket_limited X"
  "length (workers (handle_error cfg i r err X)) = length (workers X)"
  "wbucket (workers (handle_error cfg i r err X) ! j) = wbucket (workers X ! j)"
  by (simp_all add: handle_error_def Let_def)

lemma limits_resolve [simp]:
  "global_limited (resolve i r v X) = global_limited X"
  "bucket_limited (resolve i r v X) = bucket_limited X"
  "length (workers (resolve i r v X)) = length (workers X)"
  "wbucket (workers (resolve i r v X) ! j) = wbucket (workers X ! j)"
  by (simp_all add: resolve_def)

lemma admit_start_fetch:
  assumes "i < length (workers X)"
  shows "wpc (workers (start_fetch i r X) ! i) = AwaitFetch r
       \<and> fetched (effects (start_fetch i r X)) = fetched (effects X) @ [r]"
  using assms by (simp add: start_fetch_def setPC_def)

lemma admit_bucket_check:
  assumes "i < length (workers X)"
  shows "(bucket_limited X (wbucket (workers X ! i)) \<longrightarrow>
            wpc (workers (bucket_check i r X) ! i) = AwaitBucketSleep r
          \<and> fetched (effects (bucket_check i r X)) = fetched (effects X)
          \<and> slept (effects (bucket_check i r X)) =
              slept (effects X) @
                [Some (reset (the (buckets X (wbucket (workers X ! i)))) * 1000 - now X)])
       \<and> (\<not> bucket_limited X (wbucket (workers X ! i)) \<longrightarrow>
            wpc (workers (bucket_check i r X) ! i) = AwaitFetch r
          \<and> fetched (effects (bucket_check i r X)) = fetched (effects X) @ [r]
          \<and> slept (effects (bucket_check i r X)) = slept (effects X))"
  using assms
  by (simp add: bucket_check_cases start_fetch_def setPC_def sleep_def logR_def)

lemma admit_loop_head:
  assumes "i < length (workers X)"
  shows "fetched (effects (loop_head i X)) = fetched (effects X)
       \<or> (\<exists>r. wpc (workers (loop_head i X) ! i) = AwaitFetch r
            \<and> fetched (effects (loop_head i X)) = fetched (effects X) @ [r]
            \<and> \<not> global_limited X \<and> \<not> bucket_limited X (wbucket (workers X ! i)))"
proof (cases "queue_of X (wbucket (workers X ! i))")
  case Nil
  then show ?thesis by (simp add: loop_head_def setPC_def)
next
  case (Cons r rest)
  from loop_head_takes [OF assms Cons] show ?thesis
    by (cases "global_limited X"; cases "bucket_limited X (wbucket (workers X ! i))") auto
qed

lemma admit_handle_error:
  assumes "i < length (workers X)"
  shows "fetched (effects (handle_error cfg i r err X)) = fetched (effects X)
       \<or> (\<exists>r'. wpc (workers (handle_error cfg i r err X) ! i) = AwaitFetch r'
            \<and> fetched (effects (handle_error cfg i r err X)) = fetched (effects X) @ [r']
            \<and> \<not> global_limited X \<and> \<not> bucket_limited X (wbucket (workers X ! i)))"
proof -
  let ?Y = "unshift (wbucket (workers X ! i)) (r\<lparr>retries := retries r + 1\<rparr>)
              (logR DEBUG ''Retrying request'' X)"
  let ?Z = "X\<lparr>effects := effects X @ [Reject r err]\<rparr>"
  have iY: "i < length (workers ?Y)" and iZ: "i < length (workers ?Z)"
    using assms by simp_all
  consider (limited) "err_status err = 429"
    | (retry) "err_status err \<noteq> 429" "retries r < rateLimitRetryLimit cfg"
    | (reject) "err_status err \<noteq> 429" "\<not> retries r < rateLimitRetryLimit cfg"
    by blast
  then show ?thesis
  proof cases
    case limited
    then show ?thesis using assms by (simp add: handle_error_limited)
  next
    case retry
    then have eq: "handle_error cfg i r err X = loop_head i ?Y"
      by (simp add: handle_error_def Let_def)
    from admit_loop_head [OF iY] show ?thesis unfolding eq by simp
  next
    case reject
    then have eq: "handle_error cfg i r err X = loop_head i ?Z"
      by (simp add: handle_error_def)
    from admit_loop_head [OF iZ] show ?thesis unfolding eq by simp
  qed
qed

lemma admit_resolve:
  assumes "i < length (workers X)"
  shows "fetched (effects (resolve i r v X)) = fetched (effects X)
       \<or> (\<exists>r'. wpc (workers (resolve i r v X) ! i) = AwaitFetch r'
            \<and> fetched (effects (resolve i r v X)) = fetched (effects X) @ [r']
            \<and> \<not> global_limited X \<and> \<not> bucket_limited X (wbucket (workers X ! i)))"
proof -
  let ?Z = "X\<lparr>effects := effects X @ [Resolve r v]\<rparr>"
  have iZ: "i < length (workers ?Z)" using assms by simp
  from admit_loop_head [OF iZ] show ?thesis unfolding resolve_def by simp
qed

lemma request_step:
  "rest_step cfg (Request ep options) m =
     (if bucket_of_call ep options \<in> processing m
      then m\<lparr>nextPromise := Suc (nextPromise m),
             queues := (queues m)(bucket_of_call ep options \<mapsto>
                         queue_of m (bucket_of_call ep options) @ [queued ep options (nextPromise m)])\<rparr>
      else loop_head (length (workers m))
             (m\<lparr>nextPromise := Suc (nextPromise m),
                queues := (queues m)(bucket_of_call ep options \<mapsto>
                            queue_of m (bucket_of_call ep options) @ [queued ep options (nextPromise m)]),
                processing := insert (bucket_of_call ep options) (processing m),
                workers := workers m @ [\<lparr>wbucket = bucket_of_call ep options, wpc = LoopHead\<rparr>]\<rparr>))"
  by (simp add: rest_step_def request_def queueRequest_def processQueue_def Let_def
      bucket_of_call_def queue_of_def queued_def)

lemma bucketOf_queued: "bucketOf (queued ep options n) = bucket_of_call ep options"
  by (simp add: bucketOf_def bucket_of_call_def queued_def)

lemma admit_lift:
  assumes "fetched (effects Y) = F
       \<or> (\<exists>r'. wpc (workers Y ! i) = AwaitFetch r' \<and> fetched (effects Y) = F @ [r']
            \<and> \<not> global_limited Y \<and> \<not> bucket_limited Y (wbucket (workers Y ! i)))"
    and "i < length (workers Y)"
  shows "fetched (effects Y) = F
       \<or> (\<exists>j r. j < length (workers Y) \<and> wpc (workers Y ! j) = AwaitFetch r
            \<and> fetched (effects Y) = F @ [r]
            \<and> (P j r \<or> Q j r
               \<or> \<not> global_limited Y \<and> \<not> bucket_limited Y (wbucket (workers Y ! j))))"
  using assms by blast

text \<open>
  Every step hands at most one request to \<^verbatim>\<open>fetch\<close>; when it hands one, either the
  worker wakes from its sleep on the bucket, or it wakes from its sleep on the global limit
  and the bucket is not exhausted, or neither limit is in force.
\<close>

lemma admit_step:
  "fetched (effects (rest_step cfg ev m)) = fetched (effects m)
   \<or> (\<exists>j r. j < length (workers (rest_step cfg ev m))
          \<and> wpc (workers (rest_step cfg ev m) ! j) = AwaitFetch r
          \<and> fetched (effects (rest_step cfg ev m)) = fetched (effects m) @ [r]
          \<and> (ev = TimerFired j \<and> j < length (workers m) \<and> wpc (workers m ! j) = AwaitBucketSleep r
             \<or> ev = TimerFired j \<and> j < length (workers m) \<and> wpc (workers m ! j) = AwaitGlobalSleep r
               \<and> \<not> bucket_limited (rest_step cfg ev m) (wbucket (workers (rest_step cfg ev m) ! j))
             \<or> \<not> global_limited (rest_step cfg ev m)
               \<and> \<not> bucket_limited (rest_step cfg ev m) (wbucket (workers (rest_step cfg ev m) ! j))))"
proof (cases ev)
  case (Request ep options)
  let ?r = "queued ep options (nextPromise m)"
  let ?b = "bucket_of_call ep options"
  let ?m2 = "m\<lparr>nextPromise := Suc (nextPromise m),
                queues := (queues m)(?b \<mapsto> queue_of m ?b @ [?r])\<rparr>"
  let ?X = "?m2\<lparr>processing := insert ?b (processing m),
                   workers := workers m @ [\<lparr>wbucket = ?b, wpc = LoopHead\<rparr>]\<rparr>"
  have eq: "rest_step cfg ev m = (if ?b \<in> processing m then ?m2 else loop_head (length (workers m)) ?X)"
    unfolding Request by (rule request_step)
  have n: "length (workers m) < length (workers ?X)" by simp
  show ?thesis
  proof (cases "?b \<in> processing m")
    case True
    then show ?thesis by (simp add: eq)
  next
    case False
    have e: "rest_step cfg ev m = loop_head (length (workers m)) ?X"
      using False by (simp only: eq if_False)
    have a: "fetched (effects (loop_head (length (workers m)) ?X)) = fetched (effects m)
       \<or> (\<exists>r'. wpc (workers (loop_head (length (workers m)) ?X) ! length (workers m)) = AwaitFetch r'
            \<and> fetched (effects (loop_head (length (workers m)) ?X)) = fetched (effects m) @ [r']
            \<and> \<not> global_limited (loop_head (length (workers m)) ?X)
            \<and> \<not> bucket_limited (loop_head (length (workers m)) ?X)
                  (wbucket (workers (loop_head (length (workers m)) ?X) ! length (workers m))))"
      using admit_loop_head [OF n] by simp
    show ?thesis
      unfolding e by (rule admit_lift [OF a]) simp
  qed
next
  case (Advance dt)
  then show ?thesis by (simp add: rest_step_def)
next
  case (TimerFired i)
  show ?thesis
  proof (cases "i < length (workers m)")
    case True
    show ?thesis
    proof (cases "wpc (workers m ! i)")
      case (AwaitGlobalSleep r)
      have eq: "rest_step cfg ev m = bucket_check i r m"
        using True AwaitGlobalSleep by (simp add: TimerFired rest_step_def timer_fired_def)
      show ?thesis
      proof (cases "bucket_limited m (wbucket (workers m ! i))")
        case b: True
        with admit_bucket_check [OF True, of r] show ?thesis unfolding eq by simp
      next
        case b: False
        with admit_bucket_check [OF True, of r] True AwaitGlobalSleep TimerFired show ?thesis
          unfolding eq by (intro disjI2 exI [of _ i] exI [of _ r]) simp
      qed
    next
      case (AwaitBucketSleep r)
      have eq: "rest_step cfg ev m = start_fetch i r m"
        using True AwaitBucketSleep by (simp add: TimerFired rest_step_def timer_fired_def)
      from admit_start_fetch [OF True, of r] True AwaitBucketSleep TimerFired show ?thesis
        unfolding eq by (intro disjI2 exI [of _ i] exI [of _ r]) simp
    next
      case (AwaitRetrySleep r)
      let ?Y = "unshift (wbucket (workers m ! i)) r m"
      have eq: "rest_step cfg ev m = loop_head i ?Y"
        using True AwaitRetrySleep by (simp add: TimerFired rest_step_def timer_fired_def)
      have iY: "i < length (workers ?Y)" using True by simp
      have a: "fetched (effects (loop_head i ?Y)) = fetched (effects m)
       \<or> (\<exists>r'. wpc (workers (loop_head i ?Y) ! i) = AwaitFetch r'
            \<and> fetched (effects (loop_head i ?Y)) = fetched (effects m) @ [r']
            \<and> \<not> global_limited (loop_head i ?Y)
            \<and> \<not> bucket_limited (loop_head i ?Y) (wbucket (workers (loop_head i ?Y) ! i)))"
        using admit_loop_head [OF iY] by simp
      show ?thesis
        unfolding eq by (rule admit_lift [OF a]) (simp add: True)
    qed (simp_all add: TimerFired rest_step_def timer_fired_def)
  next
    case False
    then show ?thesis by (simp add: TimerFired rest_step_def)
  qed
next
  case (FetchSettled i res)
  show ?thesis
  proof (cases "i < length (workers m)")
    case True
    show ?thesis
    proof (cases "wpc (workers m ! i)")
      case (AwaitFetch r)
      show ?thesis
      proof (cases res)
        case None
        let ?Y = "handle_error cfg i r (APIError 0 None) m"
        have eq: "rest_step cfg ev m = ?Y"
          using True AwaitFetch None by (simp add: FetchSettled rest_step_def fetch_settled_def)
        have a: "fetched (effects ?Y) = fetched (effects m)
         \<or> (\<exists>r'. wpc (workers ?Y ! i) = AwaitFetch r' \<and> fetched (effects ?Y) = fetched (effects m) @ [r']
              \<and> \<not> global_limited ?Y \<and> \<not> bucket_limited ?Y (wbucket (workers ?Y ! i)))"
          using admit_handle_error [OF True, of cfg r "APIError 0 None"] by simp
        show ?thesis
          unfolding eq by (rule admit_lift [OF a]) (simp add: True)
      next
        case (Some response)
        let ?m1 = "updateRateLimits response (bucketOf r) m"
        let ?Y = "resolve i r JNull ?m1"
        have i1: "i < length (workers ?m1)" using True by simp
        have a: "fetched (effects ?Y) = fetched (effects m)
         \<or> (\<exists>r'. wpc (workers ?Y ! i) = AwaitFetch r' \<and> fetched (effects ?Y) = fetched (effects m) @ [r']
              \<and> \<not> global_limited ?Y \<and> \<not> bucket_limited ?Y (wbucket (workers ?Y ! i)))"
          using admit_resolve [OF i1, of r JNull] by simp
        have l: "?thesis" if "rest_step cfg ev m = ?Y"
          unfolding that by (rule admit_lift [OF a]) (simp add: True)
        have w: "?thesis" if "rest_step cfg ev m = setPC i pc' ?m1" for pc'
          unfolding that by simp
        from l w show ?thesis
          unfolding FetchSettled Some response_settled [OF True AwaitFetch]
          by (simp split: if_splits)
      qed
    qed (simp_all add: FetchSettled rest_step_def fetch_settled_def)
  next
    case False
    then show ?thesis by (simp add: FetchSettled rest_step_def)
  qed
next
  case (JsonRead i res)
  show ?thesis
  proof (cases "i < length (workers m)")
    case True
    have he: "?thesis" if eq: "rest_step cfg ev m = handle_error cfg i r err m" for r err
    proof -
      let ?Y = "handle_error cfg i r err m"
      have a: "fetched (effects ?Y) = fetched (effects m)
         \<or> (\<exists>r'. wpc (workers ?Y ! i) = AwaitFetch r' \<and> fetched (effects ?Y) = fetched (effects m) @ [r']
              \<and> \<not> global_limited ?Y \<and> \<not> bucket_limited ?Y (wbucket (workers ?Y ! i)))"
        using admit_handle_error [OF True, of cfg r err] by simp
      show ?thesis unfolding eq by (rule admit_lift [OF a]) (simp add: True)
    qed
    have rs: "?thesis" if eq: "rest_step cfg ev m = resolve i r v m" for r v
    proof -
      let ?Y = "resolve i r v m"
      have a: "fetched (effects ?Y) = fetched (effects m)
         \<or> (\<exists>r'. wpc (workers ?Y ! i) = AwaitFetch r' \<and> fetched (effects ?Y) = fetched (effects m) @ [r']
              \<and> \<not> global_limited ?Y \<and> \<not> bucket_limited ?Y (wbucket (workers ?Y ! i)))"
        using admit_resolve [OF True, of r v] by simp
      show ?thesis unfolding eq by (rule admit_lift [OF a]) (simp add: True)
    qed
    show ?thesis
    proof (cases "wpc (workers m ! i)")
      case (AwaitErrorBody r response)
      show ?thesis
        by (rule he) (simp add: JsonRead error_body_read [OF True AwaitErrorBody])
    next
      case (AwaitJson r)
      show ?thesis
      proof (cases res)
        case None
        show ?thesis
          by (rule he) (simp add: JsonRead None json_body_read(2) [OF True AwaitJson])
      next
        case (Some v)
        show ?thesis
          by (rule rs) (simp add: JsonRead Some json_body_read(1) [OF True AwaitJson])
      qed
    qed (simp_all add: JsonRead rest_step_def json_read_def)
  next
    case False
    then show ?thesis by (simp add: JsonRead rest_step_def)
  qed
next
  case (TextRead i res)
  show ?thesis
  proof (cases "i < length (workers m)")
    case True
    have he: "?thesis" if eq: "rest_step cfg ev m = handle_error cfg i r err m" for r err
    proof -
      let ?Y = "handle_error cfg i r err m"
      have a: "fetched (effects ?Y) = fetched (effects m)
         \<or> (\<exists>r'. wpc (workers ?Y ! i) = AwaitFetch r' \<and> fetched (effects ?Y) = fetched (effects m) @ [r']
              \<and> \<not> global_limited ?Y \<and> \<not> bucket_limited ?Y (wbucket (workers ?Y ! i)))"
        using admit_handle_error [OF True, of cfg r err] by simp
      show ?thesis unfolding eq by (rule admit_lift [OF a]) (simp add: True)
    qed
    have rs: "?thesis" if eq: "rest_step cfg ev m = resolve i r v m" for r v
    proof -
      let ?Y = "resolve i r v m"
      have a: "fetched (effects ?Y) = fetched (effects m)
         \<or> (\<exists>r'. wpc (workers ?Y ! i) = AwaitFetch r' \<and> fetched (effects ?Y) = fetched (effects m) @ [r']
              \<and> \<not> global_limited ?Y \<and> \<not> bucket_limited ?Y (wbucket (workers ?Y ! i)))"
        using admit_resolve [OF True, of r v] by simp
      show ?thesis unfolding eq by (rule admit_lift [OF a]) (simp add: True)
    qed
    show ?thesis
    proof (cases "wpc (workers m ! i)")
      case (AwaitText r)
      show ?thesis
      proof (cases res)
        case None
        show ?thesis
          by (rule he) (simp add: TextRead None text_body_read(2) [OF True AwaitText])
      next
        case (Some v)
        show ?thesis
          by (rule rs) (simp add: TextRead Some text_body_read(1) [OF True AwaitText])
      qed
    qed (simp_all add: TextRead rest_step_def text_read_def)
  next
    case False
    then show ?thesis by (simp add: TextRead rest_step_def)
  qed
qed

lemma INV_reachable_step:
  "\<exists>S. INV S (rest_step cfg ev (rest_run cfg (newRESTManager t0) evs))"
  using INV_reachable [of "evs @ [ev]" cfg t0] unfolding rest_run_snoc by blast

lemma request_idle:
  assumes idle: "bucket_of_call ep options \<notin> processing m"
    and empty: "queue_of m (bucket_of_call ep options) = []"
  shows "(global_limited m \<longrightarrow>
            wpc (workers (rest_step cfg (Request ep options) m) ! length (workers m)) =
              AwaitGlobalSleep (queued ep options (nextPromise m))
          \<and> fetched (effects (rest_step cfg (Request ep options) m)) = fetched (effects m)
          \<and> slept (effects (rest_step cfg (Request ep options) m)) =
              slept (effects m) @ [Some (globalReset m - now m)])
       \<and> (\<not> global_limited m \<and> bucket_limited m (bucket_of_call ep options) \<longrightarrow>
            wpc (workers (rest_step cfg (Request ep options) m) ! length (workers m)) =
              AwaitBucketSleep (queued ep options (nextPromise m))
          \<and> fetched (effects (rest_step cfg (Request ep options) m)) = fetched (effects m)
          \<and> slept (effects (rest_step cfg (Request ep options) m)) =
              slept (effects m) @
                [Some (reset (the (buckets m (bucket_of_call ep options))) * 1000 - now m)])
       \<and> (\<not> global_limited m \<and> \<not> bucket_limited m (bucket_of_call ep options) \<longrightarrow>
            wpc (workers (rest_step cfg (Request ep options) m) ! length (workers m)) =
              AwaitFetch (queued ep options (nextPromise m))
          \<and> fetched (effects (rest_step cfg (Request ep options) m)) =
              fetched (effects m) @ [queued ep options (nextPromise m)]
          \<and> slept (effects (rest_step cfg (Request ep options) m)) = slept (effects m))"
proof -
  let ?r = "queued ep options (nextPromise m)"
  let ?b = "bucket_of_call ep options"
  let ?X = "m\<lparr>nextPromise := Suc (nextPromise m),
                queues := (queues m)(?b \<mapsto> queue_of m ?b @ [?r]),
                processing := insert ?b (processing m),
                workers := workers m @ [\<lparr>wbucket = ?b, wpc = LoopHead\<rparr>]\<rparr>"
  have eq: "rest_step cfg (Request ep options) m = loop_head (length (workers m)) ?X"
    using idle by (simp add: request_step)
  have n: "length (workers m) < length (workers ?X)" by simp
  have q: "queue_of ?X (wbucket (workers ?X ! length (workers m))) = [?r]"
    using empty by (simp add: queue_of_def)
  have g: "global_limited ?X = global_limited m"
    by (simp add: global_limited_def)
  have b: "bucket_limited ?X = bucket_limited m" "buckets ?X = buckets m" "now ?X = now m"
    "globalReset ?X = globalReset m"
    by (simp_all add: fun_eq_iff bucket_limited_def)
  from loop_head_takes [OF n q] show ?thesis
    unfolding eq g b by simp
qed

lemma timer_after_global:
  assumes i: "i < length (workers m)" and pc: "wpc (workers m ! i) = AwaitGlobalSleep r"
  shows "(bucket_limited m (wbucket (workers m ! i)) \<longrightarrow>
            wpc (workers (rest_step cfg (TimerFired i) m) ! i) = AwaitBucketSleep r
          \<and> fetched (effects (rest_step cfg (TimerFired i) m)) = fetched (effects m)
          \<and> slept (effects (rest_step cfg (TimerFired i) m)) =
              slept (effects m) @
                [Some (reset (the (buckets m (wbucket (workers m ! i)))) * 1000 - now m)])
       \<and> (\<not> bucket_limited m (wbucket (workers m ! i)) \<longrightarrow>
            wpc (workers (rest_step cfg (TimerFired i) m) ! i) = AwaitFetch r
          \<and> fetched (effects (rest_step cfg (TimerFired i) m)) = fetched (effects m) @ [r]
          \<and> slept (effects (rest_step cfg (TimerFired i) m)) = slept (effects m))"
proof -
  have eq: "rest_step cfg (TimerFired i) m = bucket_check i r m"
    using i pc by (simp add: rest_step_def timer_fired_def)
  show ?thesis unfolding eq by (rule admit_bucket_check [OF i])
qed

lemma timer_after_bucket:
  assumes i: "i < length (workers m)" and pc: "wpc (workers m ! i) = AwaitBucketSleep r"
  shows "wpc (workers (rest_step cfg (TimerFired i) m) ! i) = AwaitFetch r
       \<and> fetched (effects (rest_step cfg (TimerFired i) m)) = fetched (effects m) @ [r]"
proof -
  have eq: "rest_step cfg (TimerFired i) m = start_fetch i r m"
    using i pc by (simp add: rest_step_def timer_fired_def)
  show ?thesis unfolding eq by (rule admit_start_fetch [OF i])
qed

lemma m_renewed_state:
  "workers m_renewed =
     [\<lparr>wbucket = ''GET:/a'', wpc = AwaitErrorBody (queued ''/a'' getOptions 0) (response_global 1)\<rparr>,
      \<lparr>wbucket = ''GET:/b'', wpc = AwaitErrorBody (queued ''/b'' getOptions 1) (response_global 3)\<rparr>,
      \<lparr>wbucket = ''GET:/c'', wpc = AwaitGlobalSleep request_c\<rparr>]
   \<and> now m_renewed = 1000 \<and> globalRemaining m_renewed = 0 \<and> globalReset m_renewed = 3500
   \<and> slept (effects m_renewed) = [Some 1000] \<and> buckets m_renewed = Map.empty
   \<and> map endpoint (fetched (effects m_renewed)) = [''/a'', ''/b'']"
  by (simp add: m_renewed_def evs_renewed_def rest_defs getOptions_def response_global_def
      request_c_def)

text \<open>
  Claim C6, as the spec has it: a request is never sent while its bucket is exhausted and
  its reset is ahead, the worker sleeping until the reset instead; and the global limit is
  checked before the bucket's and gates the requests of all buckets.

  Each limit is tested once, with an \<^verbatim>\<open>if\<close>, when the request is taken from the queue,
  and not again after the sleep. In the run \<open>evs_renewed\<close> the worker of \<^verbatim>\<open>/c\<close> finds the
  global limit in force at time 0 and sleeps the 1000 ms that are left of it; at time 500
  another reply renews the global limit until 3500; at time 1000 the timer fires, on time,
  and \<^verbatim>\<open>/c\<close> is sent, the global limit being in force before and after.
\<close>

theorem C6_counterexample:
  "wpc (workers m_renewed ! 2) = AwaitGlobalSleep request_c
   \<and> slept (effects m_renewed) = [Some 1000] \<and> now m_renewed = 1000
   \<and> global_limited m_renewed
   \<and> global_limited (rest_step restOptions3 (TimerFired 2) m_renewed)
   \<and> fetched (effects (rest_step restOptions3 (TimerFired 2) m_renewed)) =
       fetched (effects m_renewed) @ [request_c]"
proof -
  have i: "2 < length (workers m_renewed)" and pc: "wpc (workers m_renewed ! 2) = AwaitGlobalSleep request_c"
    by (simp_all add: m_renewed_state)
  have nb: "\<not> bucket_limited m_renewed (wbucket (workers m_renewed ! 2))"
    by (simp add: bucket_limited_def m_renewed_state)
  have g: "global_limited m_renewed"
    by (simp add: global_limited_def m_renewed_state)
  have eq: "rest_step restOptions3 (TimerFired 2) m_renewed = bucket_check 2 request_c m_renewed"
    using i pc by (simp add: rest_step_def timer_fired_def)
  have g': "global_limited (rest_step restOptions3 (TimerFired 2) m_renewed)"
    unfolding eq using g by simp
  from timer_after_global [OF i pc, of restOptions3] nb g g' pc show ?thesis
    by (simp add: m_renewed_state)
qed

text \<open>
  Claim C6, amended: in every state the dispatcher reaches from its construction, whatever
  the events and their interleaving across buckets,
  \<^item> a step hands at most one request to \<^verbatim>\<open>fetch\<close>; when it hands one, then either the
    worker has just woken from its sleep on the bucket's limit, or it has just woken from
    its sleep on the global limit and the bucket is not exhausted at that moment, or,
    at that moment, neither the global limit is in force nor the bucket exhausted (no
    entry, or \<^verbatim>\<open>remaining\<close> positive, or the clock at \<^verbatim>\<open>reset * 1000\<close> or later);
  \<^item> a request submitted to an idle bucket while the global limit is in force is not sent:
    its worker asks for a timer of \<^verbatim>\<open>globalReset - now\<close> ms, whatever the bucket's entry
    says, the global test coming first; submitted while only the bucket is exhausted, it is
    not sent either and the timer is of \<^verbatim>\<open>reset * 1000 - now\<close> ms; otherwise it is sent at
    once;
  \<^item> a worker that wakes from its sleep on the global limit tests the bucket alone, and
    sleeps \<^verbatim>\<open>reset * 1000 - now\<close> ms when it is exhausted and sends the request when it is
    not; a worker that wakes from its sleep on the bucket sends the request without any
    test.

  So the limits gate a request when it is taken from its queue, and a limit that is set or
  renewed while the worker sleeps, or a timer that fires early, lets the request through.
\<close>

theorem C6_limits_tested_once_when_taken:
  "(let m = rest_run cfg (newRESTManager t0) evs; m' = rest_step cfg ev m in
      (fetched (effects m') = fetched (effects m) \<or> (\<exists>r. fetched (effects m') = fetched (effects m) @ [r]))
    \<and> (\<forall>r. fetched (effects m') = fetched (effects m) @ [r] \<longrightarrow>
          (\<exists>j. ev = TimerFired j \<and> j < length (workers m) \<and> wpc (workers m ! j) = AwaitBucketSleep r)
        \<or> (\<exists>j. ev = TimerFired j \<and> j < length (workers m) \<and> wpc (workers m ! j) = AwaitGlobalSleep r)
          \<and> \<not> bucket_limited m' (bucketOf r)
        \<or> \<not> global_limited m' \<and> \<not> bucket_limited m' (bucketOf r))
    \<and> (\<forall>ep options. bucket_of_call ep options \<notin> processing m
          \<and> queue_of m (bucket_of_call ep options) = [] \<longrightarrow>
          (let w = rest_step cfg (Request ep options) m;
               r = queued ep options (nextPromise m);
               n = length (workers m)
           in (global_limited m \<longrightarrow>
                 wpc (workers w ! n) = AwaitGlobalSleep r \<and> fetched (effects w) = fetched (effects m)
               \<and> slept (effects w) = slept (effects m) @ [Some (globalReset m - now m)])
            \<and> (\<not> global_limited m \<and> bucket_limited m (bucketOf r) \<longrightarrow>
                 wpc (workers w ! n) = AwaitBucketSleep r \<and> fetched (effects w) = fetched (effects m)
               \<and> slept (effects w) =
                   slept (effects m) @ [Some (reset (the (buckets m (bucketOf r))) * 1000 - now m)])
            \<and> (\<not> global_limited m \<and> \<not> bucket_limited m (bucketOf r) \<longrightarrow>
                 wpc (workers w ! n) = AwaitFetch r \<and> fetched (effects w) = fetched (effects m) @ [r])))
    \<and> (\<forall>i r. i < length (workers m) \<and> wpc (workers m ! i) = AwaitGlobalSleep r \<longrightarrow>
          (let w = rest_step cfg (TimerFired i) m
           in (bucket_limited m (bucketOf r) \<longrightarrow>
                 wpc (workers w ! i) = AwaitBucketSleep r \<and> fetched (effects w) = fetched (effects m)
               \<and> slept (effects w) =
                   slept (effects m) @ [Some (reset (the (buckets m (bucketOf r))) * 1000 - now m)])
            \<and> (\<not> bucket_limited m (bucketOf r) \<longrightarrow>
                 wpc (workers w ! i) = AwaitFetch r \<and> fetched (effects w) = fetched (effects m) @ [r])))
    \<and> (\<forall>i r. i < length (workers m) \<and> wpc (workers m ! i) = AwaitBucketSleep r \<longrightarrow>
          fetched (effects (rest_step cfg (TimerFired i) m)) = fetched (effects m) @ [r]))"
proof -
  define m where "m = rest_run cfg (newRESTManager t0) evs"
  define m' where "m' = rest_step cfg ev m"
  obtain S where inv: "INV S m"
    using INV_reachable [of evs cfg t0] unfolding m_def by blast
  obtain S' where inv': "INV S' m'"
    using INV_reachable_step [of cfg ev t0 evs] unfolding m'_def m_def by blast
  note A = admit_step [of cfg ev m, folded m'_def]
  have one: "fetched (effects m') = fetched (effects m) \<or> (\<exists>r. fetched (effects m') = fetched (effects m) @ [r])"
    using A by blast
  have gate: "(\<exists>j. ev = TimerFired j \<and> j < length (workers m) \<and> wpc (workers m ! j) = AwaitBucketSleep r)
        \<or> (\<exists>j. ev = TimerFired j \<and> j < length (workers m) \<and> wpc (workers m ! j) = AwaitGlobalSleep r)
          \<and> \<not> bucket_limited m' (bucketOf r)
        \<or> \<not> global_limited m' \<and> \<not> bucket_limited m' (bucketOf r)"
    if f: "fetched (effects m') = fetched (effects m) @ [r]" for r
  proof -
    from A f obtain j r' where j: "j < length (workers m')" and pc: "wpc (workers m' ! j) = AwaitFetch r'"
      and f': "fetched (effects m') = fetched (effects m) @ [r']"
      and d: "ev = TimerFired j \<and> j < length (workers m) \<and> wpc (workers m ! j) = AwaitBucketSleep r'
             \<or> ev = TimerFired j \<and> j < length (workers m) \<and> wpc (workers m ! j) = AwaitGlobalSleep r'
               \<and> \<not> bucket_limited m' (wbucket (workers m' ! j))
             \<or> \<not> global_limited m' \<and> \<not> bucket_limited m' (wbucket (workers m' ! j))"
      by auto
    from f f' have r: "r' = r" by simp
    have b: "bucketOf r = wbucket (workers m' ! j)"
      using INV_request [OF inv' j] pc r by simp
    from d show ?thesis unfolding r b by blast
  qed
  have idle: "(let w = rest_step cfg (Request ep options) m;
               r = queued ep options (nextPromise m);
               n = length (workers m)
           in (global_limited m \<longrightarrow>
                 wpc (workers w ! n) = AwaitGlobalSleep r \<and> fetched (effects w) = fetched (effects m)
               \<and> slept (effects w) = slept (effects m) @ [Some (globalReset m - now m)])
            \<and> (\<not> global_limited m \<and> bucket_limited m (bucketOf r) \<longrightarrow>
                 wpc (workers w ! n) = AwaitBucketSleep r \<and> fetched (effects w) = fetched (effects m)
               \<and> slept (effects w) =
                   slept (effects m) @ [Some (reset (the (buckets m (bucketOf r))) * 1000 - now m)])
            \<and> (\<not> global_limited m \<and> \<not> bucket_limited m (bucketOf r) \<longrightarrow>
                 wpc (workers w ! n) = AwaitFetch r \<and> fetched (effects w) = fetched (effects m) @ [r]))"
    if "bucket_of_call ep options \<notin> processing m \<and> queue_of m (bucket_of_call ep options) = []"
    for ep options
    using request_idle [of ep options m cfg] that by (simp add: Let_def bucketOf_queued)
  have woken: "(let w = rest_step cfg (TimerFired i) m
           in (bucket_limited m (bucketOf r) \<longrightarrow>
                 wpc (workers w ! i) = AwaitBucketSleep r \<and> fetched (effects w) = fetched (effects m)
               \<and> slept (effects w) =
                   slept (effects m) @ [Some (reset (the (buckets m (bucketOf r))) * 1000 - now m)])
            \<and> (\<not> bucket_limited m (bucketOf r) \<longrightarrow>
                 wpc (workers w ! i) = AwaitFetch r \<and> fetched (effects w) = fetched (effects m) @ [r]))"
    if h: "i < length (workers m) \<and> wpc (workers m ! i) = AwaitGlobalSleep r" for i r
  proof -
    have b: "bucketOf r = wbucket (workers m ! i)"
      using INV_request [OF inv, of i r] h by simp
    from timer_after_global [of i m r cfg] h show ?thesis
      unfolding b by (simp add: Let_def)
  qed
  have through: "fetched (effects (rest_step cfg (TimerFired i) m)) = fetched (effects m) @ [r]"
    if "i < length (workers m) \<and> wpc (workers m ! i) = AwaitBucketSleep r" for i r
    using timer_after_bucket [of i m r cfg] that by simp
  from one gate idle woken through show ?thesis
    unfolding Let_def m_def [symmetric] m'_def [symmetric] by (simp add: Let_def)
qed

lemma m_exhausted_state:
  "workers m_exhausted = [\<lparr>wbucket = ''GET:/users/1'', wpc = Finished\<rparr>]
   \<and> processing m_exhausted = {} \<and> queue_of m_exhausted ''GET:/users/1'' = []
   \<and> now m_exhausted = 0 \<and> nextPromise m_exhausted = 1 \<and> \<not> global_limited m_exhausted
   \<and> buckets m_exhausted ''GET:/users/1'' =
        Some \<lparr>limit = 5, remaining = 0, reset = 2, resetAfter = 2, bucket = Some ''abcd1234'',
              global = False\<rparr>
   \<and> buckets m_exhausted ''abcd1234'' = None
   \<and> fetched (effects m_exhausted) = [request1] \<and> slept (effects m_exhausted) = []"
  by (simp add: m_exhausted_def evs_exhausted_def rest_defs getOptions_def response_exhausted_def
      request1_def global_limited_def)

lemma calls:
  "bucket_of_call ''/users/1'' getOptions = ''GET:/users/1''"
  "bucket_of_call ''/d'' getOptions = ''GET:/d''"
  "queued ''/users/1'' getOptions 1 = request2"
  "queued ''/users/1'' getOptions (Suc 0) = request2"
  "bucketOf request2 = ''GET:/users/1''"
  "bucketOf request_c = ''GET:/c''"
  by (simp_all add: bucket_of_call_def getOptions_def getBucketId_def queued_def request2_def
      bucketOf_def request_c_def)

theorem C6_limits_tested_once_when_taken_witness:
  "2 < length (workers m_renewed) \<and> wpc (workers m_renewed ! 2) = AwaitGlobalSleep request_c
   \<and> \<not> bucket_limited m_renewed (bucketOf request_c)
   \<and> fetched (effects (rest_step restOptions3 (TimerFired 2) m_renewed)) =
       fetched (effects m_renewed) @ [request_c]
   \<and> bucket_of_call ''/d'' getOptions \<notin> processing m_renewed
   \<and> queue_of m_renewed (bucket_of_call ''/d'' getOptions) = []
   \<and> global_limited m_renewed
   \<and> fetched (effects (rest_step restOptions3 (Request ''/d'' getOptions) m_renewed)) =
       fetched (effects m_renewed)
   \<and> slept (effects (rest_step restOptions3 (Request ''/d'' getOptions) m_renewed)) =
       [Some 1000, Some 2500]
   \<and> bucket_of_call ''/users/1'' getOptions \<notin> processing m_exhausted
   \<and> queue_of m_exhausted (bucket_of_call ''/users/1'' getOptions) = []
   \<and> \<not> global_limited m_exhausted \<and> bucket_limited m_exhausted (bucketOf request2)
   \<and> wpc (workers (rest_step restOptions3 (Request ''/users/1'' getOptions) m_exhausted) ! 1) =
       AwaitBucketSleep request2
   \<and> fetched (effects (rest_step restOptions3 (Request ''/users/1'' getOptions) m_exhausted)) =
       fetched (effects m_exhausted)
   \<and> slept (effects (rest_step restOptions3 (Request ''/users/1'' getOptions) m_exhausted)) =
       [Some 2000]"
proof -
  have r: "2 < length (workers m_renewed)" "wpc (workers m_renewed ! 2) = AwaitGlobalSleep request_c"
    "\<not> bucket_limited m_renewed (bucketOf request_c)" "global_limited m_renewed"
    "bucket_of_call ''/d'' getOptions \<notin> processing m_renewed"
    "queue_of m_renewed (bucket_of_call ''/d'' getOptions) = []"
    "slept (effects m_renewed) = [Some 1000]" "globalReset m_renewed - now m_renewed = 2500"
    by (simp_all add: m_renewed_state bucket_limited_def global_limited_def)
      (simp_all add: m_renewed_def evs_renewed_def rest_defs getOptions_def response_global_def
        bucket_of_call_def)
  have e: "bucket_of_call ''/users/1'' getOptions \<notin> processing m_exhausted"
    "queue_of m_exhausted (bucket_of_call ''/users/1'' getOptions) = []"
    "\<not> global_limited m_exhausted" "bucket_limited m_exhausted (bucketOf request2)"
    "length (workers m_exhausted) = 1" "nextPromise m_exhausted = 1"
    "slept (effects m_exhausted) = []"
    "reset (the (buckets m_exhausted (bucketOf request2))) * 1000 - now m_exhausted = 2000"
    by (simp_all add: m_exhausted_state calls bucket_limited_def)
  note R = C6_limits_tested_once_when_taken [of restOptions3 0 evs_renewed "TimerFired 2",
      unfolded Let_def m_renewed_def [symmetric]]
  note E = C6_limits_tested_once_when_taken [of restOptions3 0 evs_exhausted "TimerFired 2",
      unfolded Let_def m_exhausted_def [symmetric]]
  have a: "fetched (effects (rest_step restOptions3 (TimerFired 2) m_renewed)) =
       fetched (effects m_renewed) @ [request_c]"
    using R r(1,2,3) by blast
  have b: "fetched (effects (rest_step restOptions3 (Request ''/d'' getOptions) m_renewed)) =
       fetched (effects m_renewed)
     \<and> slept (effects (rest_step restOptions3 (Request ''/d'' getOptions) m_renewed)) =
       slept (effects m_renewed) @ [Some (globalReset m_renewed - now m_renewed)]"
    using R r(4,5,6) by blast
  have c: "wpc (workers (rest_step restOptions3 (Request ''/users/1'' getOptions) m_exhausted)
         ! length (workers m_exhausted)) =
       AwaitBucketSleep (queued ''/users/1'' getOptions (nextPromise m_exhausted))
     \<and> fetched (effects (rest_step restOptions3 (Request ''/users/1'' getOptions) m_exhausted)) =
       fetched (effects m_exhausted)
     \<and> slept (effects (rest_step restOptions3 (Request ''/users/1'' getOptions) m_exhausted)) =
       slept (effects m_exhausted)
       @ [Some (reset (the (buckets m_exhausted
            (bucketOf (queued ''/users/1'' getOptions (nextPromise m_exhausted))))) * 1000
          - now m_exhausted)]"
    using E e(1,2,3,4) by (simp add: e(6) calls)
  from a b c r e show ?thesis
    by (simp add: calls)
qed

subsection \<open>Ordering\<close>

lemma two_buckets:
  "submitted ''GET:/a'' 0 evs_two = [0] \<and> submitted ''GET:/b'' 0 evs_two = [1]
   \<and> settled_all (effects (rest_run restOptions3 (newRESTManager 0) evs_two)) = [1, 0]"
  by (simp add: evs_two_def rest_defs getOptions_def response200_def)

lemma same_bucket:
  "settled ''GET:/users/1'' (effects (rest_run restOptions3 (newRESTManager 0) evs_same)) = [0, 1]
   \<and> submitted ''GET:/users/1'' 0 evs_same = [0, 1]"
  by (simp add: evs_same_def rest_defs thrown_def parse_defs getOptions_def response200_def
      response429_def body429_def bucketOf_def)

text \<open>
  Claim C7: in every state the dispatcher reaches from its construction,
  \<^item> two workers that each hold a request (taken from the queue and not yet settled or put
    back) never hold requests of the same bucket: at most one request per bucket is in
    flight;
  \<^item> for every bucket, the promises settled so far are, in order, a prefix of the promises
    submitted to that bucket: requests of one bucket complete in the order of submission,
    retries and rate-limit waits included;
  \<^item> across buckets there is no such order: two requests submitted to \<^verbatim>\<open>GET:/a\<close> and then
    \<^verbatim>\<open>GET:/b\<close> are both in flight at once and complete in the opposite order when the
    second response arrives first.
\<close>

theorem C7_one_in_flight_and_fifo_per_bucket:
  "(let m = rest_run cfg (newRESTManager t0) evs in
      (\<forall>i j r r'. i < length (workers m) \<and> j < length (workers m)
          \<and> pc_request (wpc (workers m ! i)) = Some r \<and> pc_request (wpc (workers m ! j)) = Some r'
          \<and> bucketOf r = bucketOf r' \<longrightarrow> i = j)
    \<and> (\<forall>b. prefix (settled b (effects m)) (submitted b 0 evs)))
   \<and> submitted ''GET:/a'' 0 evs_two = [0] \<and> submitted ''GET:/b'' 0 evs_two = [1]
   \<and> settled_all (effects (rest_run restOptions3 (newRESTManager 0) evs_two)) = [1, 0]"
proof -
  define m where "m = rest_run cfg (newRESTManager t0) evs"
  have inv: "INV (\<lambda>b. submitted b 0 evs) m"
    unfolding m_def by (rule INV_reachable)
  have one: "i = j"
    if "i < length (workers m)" "j < length (workers m)"
      "pc_request (wpc (workers m ! i)) = Some r" "pc_request (wpc (workers m ! j)) = Some r'"
      "bucketOf r = bucketOf r'" for i j r r'
  proof -
    have "wbucket (workers m ! i) = wbucket (workers m ! j)"
      using INV_request [OF inv that(1,3)] INV_request [OF inv that(2,4)] that(5) by simp
    with INV_unique [OF inv that(1,2)] pc_request_active [OF that(3)] pc_request_active [OF that(4)]
    show ?thesis by blast
  qed
  have fifo: "prefix (settled b (effects m)) (submitted b 0 evs)" for b
    using INV_prefix [OF inv, of b] by (auto simp: prefix_def)
  from one fifo have "(\<forall>i j r r'. i < length (workers m) \<and> j < length (workers m)
          \<and> pc_request (wpc (workers m ! i)) = Some r \<and> pc_request (wpc (workers m ! j)) = Some r'
          \<and> bucketOf r = bucketOf r' \<longrightarrow> i = j)
    \<and> (\<forall>b. prefix (settled b (effects m)) (submitted b 0 evs))"
    by blast
  with two_buckets show ?thesis
    unfolding Let_def m_def [symmetric] by simp
qed

theorem C7_one_in_flight_and_fifo_per_bucket_witness:
  "settled ''GET:/users/1'' (effects (rest_run restOptions3 (newRESTManager 0) evs_same)) = [0, 1]
   \<and> submitted ''GET:/users/1'' 0 evs_same = [0, 1]
   \<and> prefix (settled ''GET:/users/1'' (effects (rest_run restOptions3 (newRESTManager 0) evs_same)))
        (submitted ''GET:/users/1'' 0 evs_same)"
proof -
  have "prefix (settled ''GET:/users/1'' (effects (rest_run restOptions3 (newRESTManager 0) evs_same)))
        (submitted ''GET:/users/1'' 0 evs_same)"
    using C7_one_in_flight_and_fifo_per_bucket [of restOptions3 0 evs_same] by (simp add: Let_def)
  with same_bucket show ?thesis by simp
qed

subsection \<open>Rate-limit table keys\<close>

text \<open>
  Claim C8, as the spec has it: a non-global response that carries a service-provided
  bucket key different from the locally derived method+route key has its rate-limit entry
  stored, and later looked up, under the service-provided key.

  The code does not do that. A \<^verbatim>\<open>GET /users/1\<close> answered with the bucket header
  \<^verbatim>\<open>abcd1234\<close> leaves the table without an entry for \<^verbatim>\<open>abcd1234\<close>; the entry is under
  \<^verbatim>\<open>GET:/users/1\<close>, and it is that entry that makes the next \<^verbatim>\<open>GET /users/1\<close> wait.
\<close>

theorem C8_counterexample:
  "x_ratelimit_bucket response_exhausted = Some ''abcd1234''
   \<and> buckets m_exhausted ''abcd1234'' = None
   \<and> buckets m_exhausted ''GET:/users/1'' =
       Some \<lparr>limit = 5, remaining = 0, reset = 2, resetAfter = 2, bucket = Some ''abcd1234'',
             global = False\<rparr>
   \<and> wpc (workers (rest_step restOptions3 (Request ''/users/1'' getOptions) m_exhausted) ! 1) =
       AwaitBucketSleep request2"
proof -
  have e: "bucket_of_call ''/users/1'' getOptions \<notin> processing m_exhausted"
    "queue_of m_exhausted (bucket_of_call ''/users/1'' getOptions) = []"
    "\<not> global_limited m_exhausted" "bucket_limited m_exhausted (bucket_of_call ''/users/1'' getOptions)"
    "length (workers m_exhausted) = 1" "nextPromise m_exhausted = 1"
    by (simp_all add: m_exhausted_state calls bucket_limited_def)
  from request_idle [OF e(1,2), of restOptions3] e show ?thesis
    by (simp add: m_exhausted_state calls response_exhausted_def)
qed

text \<open>
  Claim C8, amended: in every state the dispatcher reaches, a non-global response to a
  request has its rate-limit entry stored under the key derived locally from the method
  and the route of that request, \<^verbatim>\<open>method:route\<close>; the bucket key the service provides is
  only recorded in the \<^verbatim>\<open>bucket\<close> field of that entry, and every other key of the table,
  the service-provided one included, keeps what it had. The entry is looked up under the
  same local key: it is the entry under \<^verbatim>\<open>method:route\<close> that decides whether a request
  submitted to an idle bucket, or one whose worker wakes from its sleep on the global
  limit, waits for the bucket or is sent.
\<close>

theorem C8_entry_stays_under_local_key:
  "(let m = rest_run cfg (newRESTManager t0) evs in
      (\<forall>i r response. i < length (workers m) \<and> wpc (workers m ! i) = AwaitFetch r
          \<and> x_ratelimit_global response \<noteq> Some ''true'' \<longrightarrow>
          buckets (rest_step cfg (FetchSettled i (Some response)) m) =
            (buckets m)(getBucketId (endpoint r) (req_method r) \<mapsto>
               \<lparr>limit = (case x_ratelimit_limit response of None \<Rightarrow> 1 | Some n \<Rightarrow> n),
                remaining = (case x_ratelimit_remaining response of None \<Rightarrow> 1 | Some n \<Rightarrow> n),
                reset = (case x_ratelimit_reset response of None \<Rightarrow> 0 | Some n \<Rightarrow> n),
                resetAfter = (case x_ratelimit_reset_after response of None \<Rightarrow> 0 | Some n \<Rightarrow> n),
                bucket = x_ratelimit_bucket response, global = False\<rparr>))
    \<and> (\<forall>ep options. bucket_of_call ep options \<notin> processing m
          \<and> queue_of m (bucket_of_call ep options) = [] \<and> \<not> global_limited m \<longrightarrow>
          (let w = rest_step cfg (Request ep options) m;
               r = queued ep options (nextPromise m)
           in (bucket_limited m (getBucketId (endpoint r) (req_method r)) \<longrightarrow>
                 wpc (workers w ! length (workers m)) = AwaitBucketSleep r
               \<and> fetched (effects w) = fetched (effects m))
            \<and> (\<not> bucket_limited m (getBucketId (endpoint r) (req_method r)) \<longrightarrow>
                 wpc (workers w ! length (workers m)) = AwaitFetch r
               \<and> fetched (effects w) = fetched (effects m) @ [r])))
    \<and> (\<forall>i r. i < length (workers m) \<and> wpc (workers m ! i) = AwaitGlobalSleep r \<longrightarrow>
          (let w = rest_step cfg (TimerFired i) m
           in (bucket_limited m (getBucketId (endpoint r) (req_method r)) \<longrightarrow>
                 wpc (workers w ! i) = AwaitBucketSleep r \<and> fetched (effects w) = fetched (effects m))
            \<and> (\<not> bucket_limited m (getBucketId (endpoint r) (req_method r)) \<longrightarrow>
                 wpc (workers w ! i) = AwaitFetch r \<and> fetched (effects w) = fetched (effects m) @ [r]))))"
proof -
  define m where "m = rest_run cfg (newRESTManager t0) evs"
  obtain S where inv: "INV S m"
    using INV_reachable [of evs cfg t0] unfolding m_def by blast
  have buckets_loop_head: "buckets (loop_head i X) = buckets X" for i X
    by (simp add: loop_head_def bucket_check_def start_fetch_def setPC_def logR_def sleep_def
        Let_def split: list.splits option.splits)
  have stored: "buckets (rest_step cfg (FetchSettled i (Some response)) m) =
            (buckets m)(getBucketId (endpoint r) (req_method r) \<mapsto>
               \<lparr>limit = (case x_ratelimit_limit response of None \<Rightarrow> 1 | Some n \<Rightarrow> n),
                remaining = (case x_ratelimit_remaining response of None \<Rightarrow> 1 | Some n \<Rightarrow> n),
                reset = (case x_ratelimit_reset response of None \<Rightarrow> 0 | Some n \<Rightarrow> n),
                resetAfter = (case x_ratelimit_reset_after response of None \<Rightarrow> 0 | Some n \<Rightarrow> n),
                bucket = x_ratelimit_bucket response, global = False\<rparr>)"
    if h: "i < length (workers m) \<and> wpc (workers m ! i) = AwaitFetch r
          \<and> x_ratelimit_global response \<noteq> Some ''true''" for i r response
  proof -
    have u: "buckets (updateRateLimits response (bucketOf r) m) =
            (buckets m)(getBucketId (endpoint r) (req_method r) \<mapsto>
               \<lparr>limit = (case x_ratelimit_limit response of None \<Rightarrow> 1 | Some n \<Rightarrow> n),
                remaining = (case x_ratelimit_remaining response of None \<Rightarrow> 1 | Some n \<Rightarrow> n),
                reset = (case x_ratelimit_reset response of None \<Rightarrow> 0 | Some n \<Rightarrow> n),
                resetAfter = (case x_ratelimit_reset_after response of None \<Rightarrow> 0 | Some n \<Rightarrow> n),
                bucket = x_ratelimit_bucket response, global = False\<rparr>)"
      using h by (simp add: updateRateLimits_def logR_def Let_def bucketOf_def)
    show ?thesis
      using h u by (simp add: response_settled setPC_def resolve_def buckets_loop_head)
  qed
  have idle: "(let w = rest_step cfg (Request ep options) m;
               r = queued ep options (nextPromise m)
           in (bucket_limited m (getBucketId (endpoint r) (req_method r)) \<longrightarrow>
                 wpc (workers w ! length (workers m)) = AwaitBucketSleep r
               \<and> fetched (effects w) = fetched (effects m))
            \<and> (\<not> bucket_limited m (getBucketId (endpoint r) (req_method r)) \<longrightarrow>
                 wpc (workers w ! length (workers m)) = AwaitFetch r
               \<and> fetched (effects w) = fetched (effects m) @ [r]))"
    if "bucket_of_call ep options \<notin> processing m
          \<and> queue_of m (bucket_of_call ep options) = [] \<and> \<not> global_limited m" for ep options
    using request_idle [of ep options m cfg] that bucketOf_queued [of ep options "nextPromise m"]
    by (simp add: Let_def bucketOf_def)
  have woken: "(let w = rest_step cfg (TimerFired i) m
           in (bucket_limited m (getBucketId (endpoint r) (req_method r)) \<longrightarrow>
                 wpc (workers w ! i) = AwaitBucketSleep r \<and> fetched (effects w) = fetched (effects m))
            \<and> (\<not> bucket_limited m (getBucketId (endpoint r) (req_method r)) \<longrightarrow>
                 wpc (workers w ! i) = AwaitFetch r \<and> fetched (effects w) = fetched (effects m) @ [r]))"
    if h: "i < length (workers m) \<and> wpc (workers m ! i) = AwaitGlobalSleep r" for i r
  proof -
    have b: "getBucketId (endpoint r) (req_method r) = wbucket (workers m ! i)"
      using INV_request [OF inv, of i r] h by (simp add: bucketOf_def)
    from timer_after_global [of i m r cfg] h show ?thesis
      unfolding b by (simp add: Let_def)
  qed
  from stored idle woken show ?thesis
    unfolding Let_def m_def [symmetric] by (simp add: Let_def)
qed

theorem C8_entry_stays_under_local_key_witness:
  "0 < length (workers m_fetching) \<and> wpc (workers m_fetching ! 0) = AwaitFetch request1
   \<and> x_ratelimit_global response_exhausted \<noteq> Some ''true''
   \<and> buckets (rest_step restOptions3 (FetchSettled 0 (Some response_exhausted)) m_fetching)
       ''abcd1234'' = None
   \<and> buckets (rest_step restOptions3 (FetchSettled 0 (Some response_exhausted)) m_fetching)
       ''GET:/users/1'' =
       Some \<lparr>limit = 5, remaining = 0, reset = 2, resetAfter = 2, bucket = Some ''abcd1234'',
             global = False\<rparr>
   \<and> bucket_of_call ''/users/1'' getOptions \<notin> processing m_exhausted
   \<and> queue_of m_exhausted (bucket_of_call ''/users/1'' getOptions) = []
   \<and> \<not> global_limited m_exhausted
   \<and> bucket_limited m_exhausted ''GET:/users/1''
   \<and> wpc (workers (rest_step restOptions3 (Request ''/users/1'' getOptions) m_exhausted) ! 1) =
       AwaitBucketSleep request2
   \<and> 2 < length (workers m_renewed) \<and> wpc (workers m_renewed ! 2) = AwaitGlobalSleep request_c
   \<and> \<not> bucket_limited m_renewed ''GET:/c''
   \<and> wpc (workers (rest_step restOptions3 (TimerFired 2) m_renewed) ! 2) = AwaitFetch request_c"
proof -
  have f: "0 < length (workers m_fetching)" "wpc (workers m_fetching ! 0) = AwaitFetch request1"
    "buckets m_fetching = Map.empty"
    "getBucketId (endpoint request1) (req_method request1) = ''GET:/users/1''"
    "m_fetching = rest_run restOptions3 (newRESTManager 0) [Request ''/users/1'' getOptions]"
    by (simp_all add: m_fetching_state)
      (simp_all add: m_fetching_def rest_defs getOptions_def request1_def)
  have x: "x_ratelimit_global response_exhausted \<noteq> Some ''true''"
    "x_ratelimit_limit response_exhausted = Some 5" "x_ratelimit_remaining response_exhausted = Some 0"
    "x_ratelimit_reset response_exhausted = Some 2" "x_ratelimit_reset_after response_exhausted = Some 2"
    "x_ratelimit_bucket response_exhausted = Some ''abcd1234''"
    by (simp_all add: response_exhausted_def)
  have e: "bucket_of_call ''/users/1'' getOptions \<notin> processing m_exhausted"
    "queue_of m_exhausted (bucket_of_call ''/users/1'' getOptions) = []"
    "\<not> global_limited m_exhausted" "bucket_limited m_exhausted ''GET:/users/1''"
    "length (workers m_exhausted) = 1" "nextPromise m_exhausted = 1"
    "getBucketId (endpoint request2) (req_method request2) = ''GET:/users/1''"
    by (simp_all add: m_exhausted_state calls bucket_limited_def)
      (simp add: request2_def getBucketId_def)
  have r: "2 < length (workers m_renewed)" "wpc (workers m_renewed ! 2) = AwaitGlobalSleep request_c"
    "\<not> bucket_limited m_renewed ''GET:/c''"
    "getBucketId (endpoint request_c) (req_method request_c) = ''GET:/c''"
    by (simp_all add: m_renewed_state bucket_limited_def)
      (simp add: request_c_def getBucketId_def)
  note F = C8_entry_stays_under_local_key [of restOptions3 0 "[Request ''/users/1'' getOptions]",
      unfolded Let_def f(5) [symmetric]]
  note E = C8_entry_stays_under_local_key [of restOptions3 0 evs_exhausted,
      unfolded Let_def m_exhausted_def [symmetric]]
  note R = C8_entry_stays_under_local_key [of restOptions3 0 evs_renewed,
      unfolded Let_def m_renewed_def [symmetric]]
  have a: "buckets (rest_step restOptions3 (FetchSettled 0 (Some response_exhausted)) m_fetching) =
      (buckets m_fetching)(getBucketId (endpoint request1) (req_method request1) \<mapsto>
               \<lparr>limit = (case x_ratelimit_limit response_exhausted of None \<Rightarrow> 1 | Some n \<Rightarrow> n),
                remaining = (case x_ratelimit_remaining response_exhausted of None \<Rightarrow> 1 | Some n \<Rightarrow> n),
                reset = (case x_ratelimit_reset response_exhausted of None \<Rightarrow> 0 | Some n \<Rightarrow> n),
                resetAfter = (case x_ratelimit_reset_after response_exhausted of None \<Rightarrow> 0 | Some n \<Rightarrow> n),
                bucket = x_ratelimit_bucket response_exhausted, global = False\<rparr>)"
    using F f(1,2) x(1) by blast
  have b: "wpc (workers (rest_step restOptions3 (Request ''/users/1'' getOptions) m_exhausted)
         ! length (workers m_exhausted)) =
       AwaitBucketSleep (queued ''/users/1'' getOptions (nextPromise m_exhausted))"
    using E e(1,2,3,4) by (simp add: e(6,7) calls)
  have c: "wpc (workers (rest_step restOptions3 (TimerFired 2) m_renewed) ! 2) = AwaitFetch request_c"
    using R r(1,2,3) by (simp add: r(4))
  from a b c f x e r show ?thesis
    by (simp add: calls)
qed

section \<open>Theorems about the session state machine\<close>

subsection \<open>Traces\<close>

lemma sent_append [simp]: "sent (xs @ ys) = sent xs @ sent ys"
  by (induction xs rule: sent.induct) auto

lemma errors_emitted_append [simp]: "errors_emitted (xs @ ys) = errors_emitted xs @ errors_emitted ys"
  by (induction xs rule: errors_emitted.induct) auto

lemma sockets_created_append [simp]: "sockets_created (xs @ ys) = sockets_created xs @ sockets_created ys"
  by (induction xs rule: sockets_created.induct) auto

lemma sequence_logW [simp]: "sequence (logW l s m) = sequence m"
  by (simp add: logW_def)

lemma ws_run_Cons: "ws_run client m (ev # evs) = ws_run client (ws_step client ev m) evs"
  by (simp add: ws_run_def)

lemma ws_run_snoc: "ws_run client m (evs @ [ev]) = ws_step client ev (ws_run client m evs)"
  by (simp add: ws_run_def)

subsection \<open>The states of the example session\<close>

lemmas ws_eval = ws_step_def connect_def resolved_def rejected_def resolve_connect_def
  reject_connect_def socket_opened_def socket_error_def socket_closed_def socket_message_def
  onMessage_def handlePayload_def setSocket_def socketState_def closing_def removeAllListeners_def
  handleHello_def handleReady_def handleDispatch_def startHeartbeat_def sendHeartbeat_def send_def
  identify_def resume_def reconnect_def reconnect_delay_over_def reconnect_failed_def handleClose_def
  shouldReconnect_def heartbeat_tick_def emit_def logW_def effect_def truthy_def
  DISPATCH_def HEARTBEAT_def RECONNECT_def INVALID_SESSION_def HELLO_def HEARTBEAT_ACK_def Let_def
  wsClient5_def discordCloseCodes_def helloFrame_def ackFrame_def readyFrame_def noData_def

lemma m_ready_steps: "m_ready = m_steady"
  by (simp add: m_ready_def m_steady_def m_acked_def m_greeted_def m_open_def m_connecting_def ws_run_def)

lemma m_connecting_state:
  "ws m_connecting = Some 0 \<and> heartbeatInterval m_connecting = None
   \<and> lastHeartbeatAck m_connecting \<and> sequence m_connecting = JsNull \<and> sessionId m_connecting = None
   \<and> resumeGatewayUrl m_connecting = None \<and> reconnectAttempts m_connecting = 0
   \<and> \<not> isReconnecting m_connecting \<and> pending m_connecting = [Connecting ByCollaborator 0]
   \<and> sockets m_connecting =
       [\<lparr>sock_url = ''wss://gateway.discord.gg/?v=10&encoding=json'', readyState = CONNECTING,
         listeners = True, onceOpen = True, onceError = True\<rparr>]
   \<and> errors_emitted (trace m_connecting) = []
   \<and> sockets_created (trace m_connecting) = [''wss://gateway.discord.gg/?v=10&encoding=json'']
   \<and> sent (trace m_connecting) = []"
  by (simp add: m_connecting_def newWebSocketManager_def ws_eval)

lemma m_open_state:
  "ws m_open = Some 0 \<and> heartbeatInterval m_open = None
   \<and> lastHeartbeatAck m_open \<and> sequence m_open = JsNull \<and> sessionId m_open = None
   \<and> resumeGatewayUrl m_open = None \<and> reconnectAttempts m_open = 0
   \<and> \<not> isReconnecting m_open \<and> pending m_open = []
   \<and> sockets m_open =
       [\<lparr>sock_url = ''wss://gateway.discord.gg/?v=10&encoding=json'', readyState = OPEN,
         listeners = True, onceOpen = False, onceError = True\<rparr>]
   \<and> errors_emitted (trace m_open) = []
   \<and> sockets_created (trace m_open) = [''wss://gateway.discord.gg/?v=10&encoding=json'']
   \<and> sent (trace m_open) = []"
  by (simp add: m_open_def m_connecting_state ws_eval)

lemma m_greeted_state:
  "ws m_greeted = Some 0 \<and> heartbeatInterval m_greeted = Some (Timeout (Some 41250))
   \<and> \<not> lastHeartbeatAck m_greeted \<and> sequence m_greeted = JsNull \<and> sessionId m_greeted = None
   \<and> resumeGatewayUrl m_greeted = None \<and> reconnectAttempts m_greeted = 0
   \<and> \<not> isReconnecting m_greeted \<and> pending m_greeted = []
   \<and> sockets m_greeted =
       [\<lparr>sock_url = ''wss://gateway.discord.gg/?v=10&encoding=json'', readyState = OPEN,
         listeners = True, onceOpen = False, onceError = True\<rparr>]
   \<and> errors_emitted (trace m_greeted) = []
   \<and> sockets_created (trace m_greeted) = [''wss://gateway.discord.gg/?v=10&encoding=json'']
   \<and> map o_op (sent (trace m_greeted)) = [HEARTBEAT, IDENTIFY]"
  by (simp add: m_greeted_def m_open_state ws_eval)

lemma m_acked_state:
  "ws m_acked = Some 0 \<and> heartbeatInterval m_acked = Some (Timeout (Some 41250))
   \<and> lastHeartbeatAck m_acked \<and> sequence m_acked = JsNull \<and> sessionId m_acked = None
   \<and> resumeGatewayUrl m_acked = None \<and> reconnectAttempts m_acked = 0
   \<and> \<not> isReconnecting m_acked \<and> pending m_acked = []
   \<and> sockets m_acked =
       [\<lparr>sock_url = ''wss://gateway.discord.gg/?v=10&encoding=json'', readyState = OPEN,
         listeners = True, onceOpen = False, onceError = True\<rparr>]
   \<and> errors_emitted (trace m_acked) = []
   \<and> sockets_created (trace m_acked) = [''wss://gateway.discord.gg/?v=10&encoding=json'']"
  by (simp add: m_acked_def m_greeted_state ws_eval)

lemma m_steady_state:
  "ws m_steady = Some 0 \<and> heartbeatInterval m_steady = Some (Timeout (Some 41250))
   \<and> lastHeartbeatAck m_steady \<and> sequence m_steady = Number 1 \<and> sessionId m_steady = Some ''session''
   \<and> resumeGatewayUrl m_steady = Some ''wss://resume.example'' \<and> reconnectAttempts m_steady = 0
   \<and> \<not> isReconnecting m_steady \<and> pending m_steady = []
   \<and> sockets m_steady =
       [\<lparr>sock_url = ''wss://gateway.discord.gg/?v=10&encoding=json'', readyState = OPEN,
         listeners = True, onceOpen = False, onceError = True\<rparr>]
   \<and> errors_emitted (trace m_steady) = []
   \<and> sockets_created (trace m_steady) = [''wss://gateway.discord.gg/?v=10&encoding=json'']"
  by (simp add: m_steady_def m_acked_state ws_eval)

lemma m_closed_state:
  "ws m_closed = None \<and> heartbeatInterval m_closed = None
   \<and> lastHeartbeatAck m_closed \<and> sequence m_closed = Number 1 \<and> sessionId m_closed = Some ''session''
   \<and> resumeGatewayUrl m_closed = Some ''wss://resume.example'' \<and> reconnectAttempts m_closed = 1
   \<and> isReconnecting m_closed \<and> pending m_closed = [ReconnectDelay]
   \<and> sockets m_closed =
       [\<lparr>sock_url = ''wss://gateway.discord.gg/?v=10&encoding=json'', readyState = CLOSED,
         listeners = False, onceOpen = False, onceError = False\<rparr>]
   \<and> errors_emitted (trace m_closed) = []
   \<and> sockets_created (trace m_closed) = [''wss://gateway.discord.gg/?v=10&encoding=json'']
   \<and> sent (trace m_closed) = sent (trace m_steady)"
  by (simp add: m_closed_def m_steady_state ws_eval)

lemma m_retrying_state:
  "ws m_retrying = Some 1 \<and> heartbeatInterval m_retrying = None
   \<and> lastHeartbeatAck m_retrying \<and> sequence m_retrying = Number 1 \<and> sessionId m_retrying = Some ''session''
   \<and> resumeGatewayUrl m_retrying = Some ''wss://resume.example'' \<and> reconnectAttempts m_retrying = 1
   \<and> isReconnecting m_retrying \<and> pending m_retrying = [Connecting ByReconnect 1]
   \<and> sockets m_retrying =
       [\<lparr>sock_url = ''wss://gateway.discord.gg/?v=10&encoding=json'', readyState = CLOSED,
         listeners = False, onceOpen = False, onceError = False\<rparr>,
        \<lparr>sock_url = ''wss://resume.example'', readyState = CONNECTING,
         listeners = True, onceOpen = True, onceError = True\<rparr>]
   \<and> errors_emitted (trace m_retrying) = []
   \<and> sockets_created (trace m_retrying) =
        [''wss://gateway.discord.gg/?v=10&encoding=json'', ''wss://resume.example'']
   \<and> sent (trace m_retrying) = sent (trace m_steady)"
  by (simp add: m_retrying_def m_closed_state ws_eval)

lemma m_given_up_state:
  "ws m_given_up = Some 1 \<and> heartbeatInterval m_given_up = None
   \<and> lastHeartbeatAck m_given_up \<and> sequence m_given_up = Number 1 \<and> sessionId m_given_up = Some ''session''
   \<and> resumeGatewayUrl m_given_up = Some ''wss://resume.example'' \<and> reconnectAttempts m_given_up = 1
   \<and> isReconnecting m_given_up \<and> pending m_given_up = []
   \<and> sockets m_given_up =
       [\<lparr>sock_url = ''wss://gateway.discord.gg/?v=10&encoding=json'', readyState = CLOSED,
         listeners = False, onceOpen = False, onceError = False\<rparr>,
        \<lparr>sock_url = ''wss://resume.example'', readyState = CONNECTING,
         listeners = True, onceOpen = True, onceError = True\<rparr>]
   \<and> errors_emitted (trace m_given_up) = []
   \<and> sockets_created (trace m_given_up) =
        [''wss://gateway.discord.gg/?v=10&encoding=json'', ''wss://resume.example'']"
  by (simp add: m_given_up_def m_retrying_state ws_eval)

lemma m_reopened_state:
  "ws m_reopened = Some 1 \<and> heartbeatInterval m_reopened = None
   \<and> lastHeartbeatAck m_reopened \<and> sequence m_reopened = Number 1 \<and> sessionId m_reopened = Some ''session''
   \<and> resumeGatewayUrl m_reopened = Some ''wss://resume.example'' \<and> reconnectAttempts m_reopened = 1
   \<and> isReconnecting m_reopened \<and> pending m_reopened = []
   \<and> sockets m_reopened =
       [\<lparr>sock_url = ''wss://gateway.discord.gg/?v=10&encoding=json'', readyState = CLOSED,
         listeners = False, onceOpen = False, onceError = False\<rparr>,
        \<lparr>sock_url = ''wss://resume.example'', readyState = OPEN,
         listeners = True, onceOpen = False, onceError = True\<rparr>]
   \<and> errors_emitted (trace m_reopened) = []
   \<and> sockets_created (trace m_reopened) =
        [''wss://gateway.discord.gg/?v=10&encoding=json'', ''wss://resume.example'']
   \<and> sent (trace m_reopened) = sent (trace m_steady)"
  by (simp add: m_reopened_def m_retrying_state ws_eval)

lemma m_stalled_state:
  "ws m_stalled = Some 1 \<and> heartbeatInterval m_stalled = Some (Timeout (Some 41250))
   \<and> \<not> lastHeartbeatAck m_stalled \<and> sequence m_stalled = Number 1 \<and> sessionId m_stalled = Some ''session''
   \<and> resumeGatewayUrl m_stalled = Some ''wss://resume.example'' \<and> reconnectAttempts m_stalled = 1
   \<and> isReconnecting m_stalled \<and> pending m_stalled = []
   \<and> sockets m_stalled =
       [\<lparr>sock_url = ''wss://gateway.discord.gg/?v=10&encoding=json'', readyState = CLOSED,
         listeners = False, onceOpen = False, onceError = False\<rparr>,
        \<lparr>sock_url = ''wss://resume.example'', readyState = OPEN,
         listeners = True, onceOpen = False, onceError = True\<rparr>]
   \<and> errors_emitted (trace m_stalled) = []
   \<and> sockets_created (trace m_stalled) =
        [''wss://gateway.discord.gg/?v=10&encoding=json'', ''wss://resume.example'']
   \<and> sent (trace m_stalled) = sent (trace m_steady) @ [heartbeatOf (Number 1), resumeFrame]"
  by (simp add: m_stalled_def m_reopened_state ws_eval heartbeatOf_def resumeFrame_def RESUME_def)

subsection \<open>Fatal close codes\<close>

text \<open>
  Claim C2, as the spec has it: when the socket closes with a fatal code the machine
  terminates, notifies the caller of the fatal error exactly once (\<^verbatim>\<open>onFatalError\<close>, the
  \<^verbatim>\<open>error\<close> event), and never reconnects.

  \<^verbatim>\<open>handleClose\<close> emits no \<^verbatim>\<open>error\<close> event on that path. The ready session whose socket
  closes with code 4004 has emitted none.
\<close>

theorem C2_counterexample:
  "hears m_ready 0
   \<and> errors_emitted (trace (ws_step wsClient5 (SocketClosed 0 4004 ''Authentication failed.'') m_ready))
     = []"
  by (simp add: m_ready_steps m_steady_state ws_eval hears_def)

text \<open>
  Claim C2, amended: when a socket closes with one of the six fatal codes, the manager
  emits no \<^verbatim>\<open>error\<close> event, creates no socket, leaves no reconnect pending, and keeps
  \<^verbatim>\<open>isReconnecting\<close>, \<^verbatim>\<open>reconnectAttempts\<close>, the field \<^verbatim>\<open>ws\<close>, the sequence, the session id
  and the resume URL as they were. When it has its handlers on that socket, it stops the
  heartbeat timer, emits one \<^verbatim>\<open>disconnect\<close> event with the code and the reason, logs an
  error, and that is all; when it has not, it does nothing at all.
\<close>

theorem C2_fatal_close_only_disconnects:
  assumes "code \<in> fatal_codes client"
  shows "(let m' = ws_step client (SocketClosed sid code reason) m in
           (hears m sid \<longrightarrow>
              trace m' = trace m @ [Log DEBUG ''WebSocket closed'']
                @ (if heartbeatInterval m \<noteq> None then [ClearInterval] else [])
                @ [Emit (EvDisconnect code reason), Log ERROR ''WebSocket closed with non-recoverable code'']
            \<and> heartbeatInterval m' = None)
         \<and> (\<not> hears m sid \<longrightarrow> trace m' = trace m \<and> heartbeatInterval m' = heartbeatInterval m)
         \<and> errors_emitted (trace m') = errors_emitted (trace m)
         \<and> sockets_created (trace m') = sockets_created (trace m)
         \<and> pending m' = pending m
         \<and> isReconnecting m' = isReconnecting m
         \<and> reconnectAttempts m' = reconnectAttempts m
         \<and> ws m' = ws m
         \<and> sequence m' = sequence m \<and> sessionId m' = sessionId m
         \<and> resumeGatewayUrl m' = resumeGatewayUrl m)"
proof -
  have no: "\<not> shouldReconnect client code x" for x
    using assms by (auto simp: shouldReconnect_def fatal_codes_def)
  show ?thesis
    by (simp add: ws_step_def socket_closed_def handleClose_def no Let_def emit_def logW_def
        effect_def setSocket_def hears_def)
qed

theorem C2_fatal_close_only_disconnects_witness:
  "4004 \<in> fatal_codes wsClient5 \<and> hears m_ready 0
   \<and> trace (ws_step wsClient5 (SocketClosed 0 4004 ''Authentication failed.'') m_ready) =
       trace m_ready @
         [Log DEBUG ''WebSocket closed'', ClearInterval,
          Emit (EvDisconnect 4004 ''Authentication failed.''),
          Log ERROR ''WebSocket closed with non-recoverable code'']
   \<and> errors_emitted (trace (ws_step wsClient5 (SocketClosed 0 4004 ''Authentication failed.'') m_ready))
       = errors_emitted (trace m_ready)
   \<and> pending (ws_step wsClient5 (SocketClosed 0 4004 ''Authentication failed.'') m_ready) = []
   \<and> \<not> isReconnecting (ws_step wsClient5 (SocketClosed 0 4004 ''Authentication failed.'') m_ready)
   \<and> sockets_created (trace (ws_step wsClient5 (SocketClosed 0 4004 ''Authentication failed.'') m_ready))
       = sockets_created (trace m_ready)
   \<and> \<not> hears m_closed 0
   \<and> trace (ws_step wsClient5 (SocketClosed 0 4004 ''Authentication failed.'') m_closed) =
       trace m_closed"
proof -
  have f: "4004 \<in> fatal_codes wsClient5"
    by (simp add: fatal_codes_def wsClient5_def discordCloseCodes_def)
  have h: "hears m_ready 0" "\<not> hears m_closed 0"
    by (simp_all add: hears_def m_ready_steps m_steady_state m_closed_state)
  from C2_fatal_close_only_disconnects [OF f, of 0 "''Authentication failed.''" m_ready]
    C2_fatal_close_only_disconnects [OF f, of 0 "''Authentication failed.''" m_closed] f h
  show ?thesis
    by (simp add: Let_def m_ready_steps m_steady_state)
qed

subsection \<open>Reconnection\<close>

lemma reconnect_while_reconnecting: "isReconnecting m \<Longrightarrow> reconnect client m = m"
  by (simp add: reconnect_def)

lemma stuck_logW [simp]: "stuck (logW l s m) = stuck m"
  by (simp add: stuck_def logW_def)

lemma stuck_effect [simp]: "stuck (effect e m) = stuck m"
  by (simp add: stuck_def effect_def)

lemma stuck_emit [simp]: "stuck (emit e m) = stuck m"
  by (simp add: stuck_def emit_def)

lemma stuck_setSocket [simp]: "stuck (setSocket sid f m) = stuck m"
  by (simp add: stuck_def setSocket_def)

lemma stuck_send [simp]: "stuck (send p m) = stuck m"
  by (simp add: send_def)

lemma sockets_send [simp]: "sockets_created (trace (send p m)) = sockets_created (trace m)"
  by (simp add: send_def logW_def effect_def)

lemma attempts_send [simp]: "reconnectAttempts (send p m) = reconnectAttempts m"
  by (simp add: send_def logW_def effect_def)

lemma errors_send [simp]: "errors_emitted (trace (send p m)) = errors_emitted (trace m)"
  by (simp add: send_def logW_def effect_def)

lemma listeners_send [simp]: "sockets (send p m) = sockets m"
  by (simp add: send_def logW_def effect_def)

lemma awaiting_none:
  "\<forall>x \<in> set ts. x = IdentifyTimer \<Longrightarrow> awaiting sid ts = None"
  by (induction sid ts rule: awaiting.induct) auto

lemma pending_stuck:
  assumes "stuck m"
  shows "ReconnectDelay \<notin> set (pending m)" and "awaiting sid (pending m) = None"
    and "set (remove1 IdentifyTimer (pending m)) \<subseteq> {IdentifyTimer}"
proof -
  have p: "set (pending m) \<subseteq> {IdentifyTimer}" using assms by (simp add: stuck_def)
  then show "ReconnectDelay \<notin> set (pending m)" by auto
  have "\<forall>x \<in> set (pending m). x = IdentifyTimer" using p by auto
  then show "awaiting sid (pending m) = None"
    by (rule awaiting_none)
  show "set (remove1 IdentifyTimer (pending m)) \<subseteq> {IdentifyTimer}"
    using p set_remove1_subset [of IdentifyTimer "pending m"] by blast
qed

lemma stuck_step:
  assumes "stuck m" "unprompted ev"
  shows "frozen m ev (ws_step client ev m)"
proof (cases ev)
  case (SocketOpened sid)
  show ?thesis
    using assms(1) pending_stuck(2) [OF assms(1), of sid]
    by (simp add: SocketOpened ws_step_def socket_opened_def resolve_connect_def frozen_def Let_def)
      (simp add: stuck_def logW_def effect_def setSocket_def map_update list_update_same_conv)
next
  case (SocketClosed sid code reason)
  show ?thesis
    using assms(1)
    by (auto simp: SocketClosed ws_step_def socket_closed_def handleClose_def Let_def reconnect_def
        frozen_def stuck_def logW_def effect_def emit_def setSocket_def map_update
        list_update_same_conv)
next
  case (SocketError sid msg)
  show ?thesis
    using assms(1) pending_stuck(2) [OF assms(1), of sid]
    by (simp add: SocketError ws_step_def socket_error_def reject_connect_def frozen_def Let_def)
      (auto simp: stuck_def logW_def effect_def emit_def setSocket_def map_update
        list_update_same_conv)
next
  case HeartbeatTick
  have r: "reconnect client (logW WARN ''Heartbeat not acknowledged, reconnecting'' m) =
           logW WARN ''Heartbeat not acknowledged, reconnecting'' m"
    using assms(1) by (simp add: reconnect_while_reconnecting stuck_def logW_def)
  show ?thesis
    using assms(1)
    by (simp add: HeartbeatTick frozen_def ws_step_def heartbeat_tick_def r sendHeartbeat_def)
       (simp add: stuck_def logW_def)
next
  case IdentifyTimerFired
  show ?thesis
    using assms(1) pending_stuck(3) [OF assms(1)]
    by (simp add: IdentifyTimerFired frozen_def ws_step_def identify_def)
       (simp add: stuck_def logW_def)
next
  case ReconnectDelayOver
  then show ?thesis
    using assms(1) pending_stuck(1) [OF assms(1)]
    by (simp add: frozen_def ws_step_def reconnect_delay_over_def)
next
  case (ConnectTimedOut sid)
  then show ?thesis
    using assms(1) pending_stuck(2) [OF assms(1), of sid]
    by (simp add: frozen_def ws_step_def reject_connect_def)
qed (use assms(2) in simp_all)

lemma socket_errors_Cons:
  "socket_errors ls (ev # evs) = socket_errors ls [ev] @ socket_errors ls evs"
  by (cases ev) simp_all

lemma stuck_run:
  assumes "stuck m" "\<forall>ev \<in> set evs. unprompted ev"
  shows "stuck (ws_run client m evs)
       \<and> reconnectAttempts (ws_run client m evs) = reconnectAttempts m
       \<and> map listeners (sockets (ws_run client m evs)) = map listeners (sockets m)
       \<and> sockets_created (trace (ws_run client m evs)) = sockets_created (trace m)
       \<and> errors_emitted (trace (ws_run client m evs)) =
           errors_emitted (trace m) @ socket_errors (map listeners (sockets m)) evs"
  using assms
proof (induction evs arbitrary: m)
  case Nil
  then show ?case by (simp add: ws_run_def)
next
  case (Cons ev evs)
  have f: "frozen m ev (ws_step client ev m)"
    using Cons.prems by (simp add: stuck_step)
  then have st: "stuck (ws_step client ev m)" by (simp add: frozen_def)
  from Cons.IH [OF st] Cons.prems(2) f show ?case
    by (simp add: ws_run_Cons frozen_def socket_errors_Cons [of _ ev evs])
qed

text \<open>
  Claim C3 says that under repeated recoverable failures the reconnection is attempted
  again and again, each time after a delay and with the counter one higher, until the
  counter passes the configured maximum and a terminal error reaches the caller.

  What \<^verbatim>\<open>reconnect\<close> does: with at most 5 attempts configured, the ready session loses its
  socket (code 1006), waits, creates a socket for the resume URL, and that attempt times
  out. The \<^verbatim>\<open>catch\<close> block finds 1 below 5 and calls \<^verbatim>\<open>reconnect\<close> (line 384), which
  returns at line 358 because \<^verbatim>\<open>isReconnecting\<close> is still true: only a \<^verbatim>\<open>ready\<close>, a
  \<^verbatim>\<open>resumed\<close> or \<^verbatim>\<open>disconnect\<close> resets it. The manager is left with the counter at 1, no
  timer, no pending continuation and no \<^verbatim>\<open>error\<close> event; and whatever sockets open, close
  or report errors and whatever timers fire afterwards, it creates no further socket, the
  counter stays 1, and the only \<^verbatim>\<open>error\<close> events are the relayed errors of the second
  socket, the one it still has its handlers on: the terminal error of line 387 never
  comes.
\<close>

theorem C3_reconnect_stops_after_first_failure:
  "reconnectAttempts m_ready = 0 \<and> \<not> isReconnecting m_ready
   \<and> m_given_up = ws_run wsClient5 m_ready
        [SocketClosed 0 1006 [], ReconnectDelayOver, ConnectTimedOut 1]
   \<and> reconnectAttempts m_given_up = 1 \<and> reconnectAttempts m_given_up < maxReconnectAttempts wsClient5
   \<and> isReconnecting m_given_up \<and> pending m_given_up = [] \<and> heartbeatInterval m_given_up = None
   \<and> sockets_created (trace m_given_up) =
        [''wss://gateway.discord.gg/?v=10&encoding=json'', ''wss://resume.example'']
   \<and> errors_emitted (trace m_given_up) = []
   \<and> (\<forall>evs. (\<forall>ev \<in> set evs. unprompted ev) \<longrightarrow>
         reconnectAttempts (ws_run wsClient5 m_given_up evs) = 1
       \<and> sockets_created (trace (ws_run wsClient5 m_given_up evs)) =
           [''wss://gateway.discord.gg/?v=10&encoding=json'', ''wss://resume.example'']
       \<and> errors_emitted (trace (ws_run wsClient5 m_given_up evs)) = socket_errors [False, True] evs)"
proof -
  have run: "m_given_up = ws_run wsClient5 m_ready
        [SocketClosed 0 1006 [], ReconnectDelayOver, ConnectTimedOut 1]"
    by (simp add: m_given_up_def m_retrying_def m_closed_def m_ready_steps ws_run_def)
  have st: "stuck m_given_up"
    by (simp add: stuck_def m_given_up_state)
  have later: "reconnectAttempts (ws_run wsClient5 m_given_up evs) = 1
       \<and> sockets_created (trace (ws_run wsClient5 m_given_up evs)) =
           [''wss://gateway.discord.gg/?v=10&encoding=json'', ''wss://resume.example'']
       \<and> errors_emitted (trace (ws_run wsClient5 m_given_up evs)) = socket_errors [False, True] evs"
    if "\<forall>ev \<in> set evs. unprompted ev" for evs
    using stuck_run [OF st that, of wsClient5] by (simp add: m_given_up_state)
  have five: "reconnectAttempts m_given_up < maxReconnectAttempts wsClient5"
    by (simp add: m_given_up_state wsClient5_def)
  from run later five show ?thesis
    by (simp add: m_given_up_state m_ready_steps m_steady_state)
qed

theorem C3_reconnect_stops_after_first_failure_witness:
  "unprompted (SocketError 1 ''ECONNREFUSED'') \<and> unprompted (SocketClosed 1 1006 [])
   \<and> unprompted HeartbeatTick \<and> unprompted ReconnectDelayOver \<and> unprompted (ConnectTimedOut 1)
   \<and> reconnectAttempts (ws_run wsClient5 m_given_up
        [SocketError 1 ''ECONNREFUSED'', SocketClosed 1 1006 [], HeartbeatTick, ReconnectDelayOver,
         ConnectTimedOut 1]) = 1
   \<and> sockets_created (trace (ws_run wsClient5 m_given_up
        [SocketError 1 ''ECONNREFUSED'', SocketClosed 1 1006 [], HeartbeatTick, ReconnectDelayOver,
         ConnectTimedOut 1])) =
           [''wss://gateway.discord.gg/?v=10&encoding=json'', ''wss://resume.example'']
   \<and> errors_emitted (trace (ws_run wsClient5 m_given_up
        [SocketError 1 ''ECONNREFUSED'', SocketClosed 1 1006 [], HeartbeatTick, ReconnectDelayOver,
         ConnectTimedOut 1])) = [''ECONNREFUSED'']"
  using C3_reconnect_stops_after_first_failure by simp

subsection \<open>Heartbeats\<close>

text \<open>
  The heartbeat cycle, step by step: a hello frame starts the timer, clears the flag
  \<^verbatim>\<open>lastHeartbeatAck\<close> and has a heartbeat with the current sequence sent first; a tick
  with the flag set clears it and sends a heartbeat with the current sequence; a tick with
  the flag cleared sends nothing and calls \<^verbatim>\<open>reconnect\<close>, which begins a reconnect when
  none is marked as running and returns at once when one is; a heartbeat-ack sets the flag.
  Heartbeats reach the socket of the field \<^verbatim>\<open>ws\<close> when it is open.
\<close>

lemma send_open:
  assumes "ws m = Some n" "socketState m = Some OPEN"
  shows "sent (trace (send payload m)) = sent (trace m) @ [payload]"
  using assms by (simp add: send_def logW_def effect_def)

lemma send_fields:
  "ws (send payload m) = ws m \<and> sockets (send payload m) = sockets m
   \<and> heartbeatInterval (send payload m) = heartbeatInterval m
   \<and> lastHeartbeatAck (send payload m) = lastHeartbeatAck m \<and> sequence (send payload m) = sequence m
   \<and> sessionId (send payload m) = sessionId m"
  by (simp add: send_def logW_def effect_def)

lemma sendHeartbeat_open:
  assumes "ws m = Some n" "socketState m = Some OPEN"
  shows "sent (trace (sendHeartbeat m)) = sent (trace m) @ [heartbeatOf (sequence m)]"
proof -
  have "ws (m\<lparr>lastHeartbeatAck := False\<rparr>) = Some n"
    "socketState (m\<lparr>lastHeartbeatAck := False\<rparr>) = Some OPEN"
    using assms by (simp_all add: socketState_def)
  from send_open [OF this, of "heartbeatOf (sequence m)"] show ?thesis
    by (simp add: sendHeartbeat_def heartbeatOf_def logW_def)
qed

lemma sendHeartbeat_fields:
  "ws (sendHeartbeat m) = ws m \<and> sockets (sendHeartbeat m) = sockets m
   \<and> heartbeatInterval (sendHeartbeat m) = heartbeatInterval m
   \<and> \<not> lastHeartbeatAck (sendHeartbeat m) \<and> sequence (sendHeartbeat m) = sequence m
   \<and> sessionId (sendHeartbeat m) = sessionId m"
  by (simp add: sendHeartbeat_def send_fields logW_def)

lemma startHeartbeat_open:
  assumes "ws m = Some n" "socketState m = Some OPEN"
  shows "sent (trace (startHeartbeat interval m)) = sent (trace m) @ [heartbeatOf (sequence m)]"
proof -
  let ?m1 = "if heartbeatInterval m \<noteq> None then effect ClearInterval m else m"
  let ?m2 = "effect (SetInterval interval) (?m1\<lparr>heartbeatInterval := Some (Timeout interval)\<rparr>)"
  have "ws ?m2 = Some n" "socketState ?m2 = Some OPEN" "sequence ?m2 = sequence m"
    "sent (trace ?m2) = sent (trace m)"
    using assms by (simp_all add: effect_def socketState_def)
  with sendHeartbeat_open [of ?m2 n] show ?thesis
    by (simp add: startHeartbeat_def Let_def)
qed

lemma startHeartbeat_fields:
  "ws (startHeartbeat interval m) = ws m
   \<and> heartbeatInterval (startHeartbeat interval m) = Some (Timeout interval)
   \<and> \<not> lastHeartbeatAck (startHeartbeat interval m)
   \<and> sequence (startHeartbeat interval m) = sequence m
   \<and> sessionId (startHeartbeat interval m) = sessionId m"
  by (simp add: startHeartbeat_def Let_def sendHeartbeat_fields effect_def)

lemma identify_fields:
  "heartbeatInterval (identify client m) = heartbeatInterval m
   \<and> lastHeartbeatAck (identify client m) = lastHeartbeatAck m
   \<and> (\<exists>x. sent (trace (identify client m)) = sent (trace m) @ x)"
  by (simp add: identify_def send_def logW_def effect_def)

lemma resume_fields:
  "heartbeatInterval (resume client m) = heartbeatInterval m
   \<and> lastHeartbeatAck (resume client m) = lastHeartbeatAck m
   \<and> (\<exists>x. sent (trace (resume client m)) = sent (trace m) @ x)"
  by (simp add: resume_def send_def logW_def effect_def)

lemma handleHello_object:
  assumes "ws m = Some n" "socketState m = Some OPEN"
  shows "\<exists>m'. handleHello client (Object g) m = Inr m'
           \<and> heartbeatInterval m' = Some (Timeout (heartbeat_interval g)) \<and> \<not> lastHeartbeatAck m'
           \<and> (\<exists>x. sent (trace m') = sent (trace m) @ heartbeatOf (sequence m) # x)"
proof -
  let ?m1 = "logW DEBUG ''Received HELLO'' m"
  let ?m2 = "startHeartbeat (heartbeat_interval g) ?m1"
  have m1: "ws ?m1 = Some n" "socketState ?m1 = Some OPEN" "sequence ?m1 = sequence m"
    "sent (trace ?m1) = sent (trace m)"
    using assms by (simp_all add: logW_def socketState_def)
  have s2: "sent (trace ?m2) = sent (trace m) @ [heartbeatOf (sequence m)]"
    using startHeartbeat_open [OF m1(1,2), of "heartbeat_interval g"] m1 by simp
  have f2: "heartbeatInterval ?m2 = Some (Timeout (heartbeat_interval g))" "\<not> lastHeartbeatAck ?m2"
    using startHeartbeat_fields [of "heartbeat_interval g" ?m1] by simp_all
  have eq: "handleHello client (Object g) m =
      Inr (if truthy (sessionId ?m2) \<and> sequence ?m2 \<noteq> JsNull then resume client ?m2 else identify client ?m2)"
    by (simp add: handleHello_def Let_def)
  show ?thesis
    using identify_fields [of client ?m2] resume_fields [of client ?m2] s2 f2
    unfolding eq by auto
qed

lemma hello_frame:
  assumes "p_op p = HELLO" "p_d p = Object g" "hears m sid" "ws m = Some n"
    "socketState m = Some OPEN"
  shows "heartbeatInterval (ws_step client (Message sid (Some p)) m) = Some (Timeout (heartbeat_interval g))
       \<and> \<not> lastHeartbeatAck (ws_step client (Message sid (Some p)) m)
       \<and> take 1 (drop (length (sent (trace m))) (sent (trace (ws_step client (Message sid (Some p)) m)))) =
           [heartbeatOf (if p_s p \<noteq> JsNull then p_s p else sequence m)]"
proof -
  let ?m1 = "emit (EvRaw p) m"
  let ?m2 = "if p_s p \<noteq> JsNull then ?m1\<lparr>sequence := p_s p\<rparr> else ?m1"
  have m2: "ws ?m2 = Some n" "socketState ?m2 = Some OPEN"
    "sequence ?m2 = (if p_s p \<noteq> JsNull then p_s p else sequence m)"
    "sent (trace ?m2) = sent (trace m)"
    using assms(4,5) by (simp_all add: emit_def socketState_def)
  obtain m' x where h: "handleHello client (Object g) ?m2 = Inr m'"
    and f: "heartbeatInterval m' = Some (Timeout (heartbeat_interval g))" "\<not> lastHeartbeatAck m'"
    and s: "sent (trace m') = sent (trace ?m2) @ heartbeatOf (sequence ?m2) # x"
    using handleHello_object [OF m2(1,2), of client g] by blast
  have "handlePayload client p m = (None, m')"
    using assms(1,2) h
    by (simp add: handlePayload_def Let_def HELLO_def DISPATCH_def HEARTBEAT_def RECONNECT_def
        INVALID_SESSION_def)
  then have eq: "ws_step client (Message sid (Some p)) m = m'"
    using assms(3) by (simp add: ws_step_def socket_message_def onMessage_def hears_def)
  show ?thesis
    unfolding eq using f s m2 by simp
qed

lemma tick_unacknowledged:
  assumes "heartbeatInterval m \<noteq> None" "\<not> lastHeartbeatAck m"
  shows "sent (trace (ws_step client HeartbeatTick m)) = sent (trace m)
       \<and> (\<not> isReconnecting m \<longrightarrow>
             isReconnecting (ws_step client HeartbeatTick m)
           \<and> reconnectAttempts (ws_step client HeartbeatTick m) = reconnectAttempts m + 1
           \<and> ws (ws_step client HeartbeatTick m) = None
           \<and> pending (ws_step client HeartbeatTick m) = pending m @ [ReconnectDelay])
       \<and> (isReconnecting m \<longrightarrow>
             ws_step client HeartbeatTick m =
               m\<lparr>trace := trace m @ [Log WARN ''Heartbeat not acknowledged, reconnecting'']\<rparr>)"
  using assms
  by (auto simp: ws_step_def heartbeat_tick_def reconnect_def emit_def logW_def effect_def Let_def
      setSocket_def split: option.splits)

lemma tick_acknowledged:
  assumes "heartbeatInterval m \<noteq> None" "lastHeartbeatAck m"
  shows "\<not> lastHeartbeatAck (ws_step client HeartbeatTick m)
       \<and> sent (trace (ws_step client HeartbeatTick m)) =
           sent (trace m) @
             (if ws m \<noteq> None \<and> socketState m = Some OPEN then [heartbeatOf (sequence m)] else [])"
  using assms
  by (auto simp: ws_step_def heartbeat_tick_def sendHeartbeat_def send_def heartbeatOf_def logW_def
      effect_def socketState_def split: option.splits)

lemma ack_frame:
  assumes "p_op p = HEARTBEAT_ACK" "hears m sid"
  shows "lastHeartbeatAck (ws_step client (Message sid (Some p)) m)"
  using assms
  by (simp add: ws_step_def socket_message_def onMessage_def handlePayload_def emit_def logW_def
      Let_def hears_def HEARTBEAT_ACK_def HELLO_def DISPATCH_def HEARTBEAT_def RECONNECT_def
      INVALID_SESSION_def)

lemma tick_stalled:
  "ws_step wsClient5 HeartbeatTick
     (m_stalled\<lparr>trace := trace m_stalled @ replicate n (Log WARN ''Heartbeat not acknowledged, reconnecting'')\<rparr>) =
   m_stalled\<lparr>trace := trace m_stalled @ replicate (Suc n) (Log WARN ''Heartbeat not acknowledged, reconnecting'')\<rparr>"
  by (simp add: m_stalled_state ws_step_def heartbeat_tick_def reconnect_def logW_def
      replicate_append_same)

lemma ticks_stalled:
  "ws_run wsClient5 m_stalled (replicate n HeartbeatTick) =
   m_stalled\<lparr>trace := trace m_stalled @ replicate n (Log WARN ''Heartbeat not acknowledged, reconnecting'')\<rparr>"
proof (induction n)
  case 0
  show ?case by (simp add: ws_run_def)
next
  case (Suc n)
  have "replicate (Suc n) HeartbeatTick = replicate n HeartbeatTick @ [HeartbeatTick]"
    by (simp add: replicate_append_same)
  then show ?case
    using Suc tick_stalled [of n] by (simp only: ws_run_snoc)
qed

text \<open>
  Claim C9 says that at a tick of the heartbeat timer with the last heartbeat
  unacknowledged, the connection is treated as dead and a reconnect is initiated.

  What the callback does then is call \<^verbatim>\<open>reconnect\<close>, and \<^verbatim>\<open>reconnect\<close> returns at line 358
  while \<^verbatim>\<open>isReconnecting\<close> is true, which it stays from the start of a reconnect until a
  \<^verbatim>\<open>ready\<close> or a \<^verbatim>\<open>resumed\<close> arrives. The ready session loses its socket (code 1006), waits,
  creates a second socket, which opens, and is greeted on it: it starts the timer, sends a
  heartbeat with its sequence 1 and a resume. When neither the acknowledgement nor
  \<^verbatim>\<open>resumed\<close> ever arrives, every tick of the timer finds the heartbeat unacknowledged,
  writes one warning to the log and does nothing else: no heartbeat is sent, the socket is
  not closed, no reconnect is pending, the counter stays 1.
\<close>

theorem C9_unacknowledged_tick_does_not_reconnect:
  "m_stalled = ws_run wsClient5 m_ready
      [SocketClosed 0 1006 [], ReconnectDelayOver, SocketOpened 1, Message 1 (Some helloFrame)]
   \<and> heartbeatInterval m_stalled = Some (Timeout (Some 41250)) \<and> \<not> lastHeartbeatAck m_stalled
   \<and> ws m_stalled = Some 1 \<and> socketState m_stalled = Some OPEN
   \<and> sent (trace m_stalled) = sent (trace m_ready) @ [heartbeatOf (Number 1), resumeFrame]
   \<and> isReconnecting m_stalled \<and> reconnectAttempts m_stalled = 1 \<and> pending m_stalled = []
   \<and> sockets_created (trace m_stalled) =
        [''wss://gateway.discord.gg/?v=10&encoding=json'', ''wss://resume.example'']
   \<and> (\<forall>n. ws_run wsClient5 m_stalled (replicate n HeartbeatTick) =
           m_stalled\<lparr>trace := trace m_stalled
              @ replicate n (Log WARN ''Heartbeat not acknowledged, reconnecting'')\<rparr>)"
proof -
  have run: "m_stalled = ws_run wsClient5 m_ready
      [SocketClosed 0 1006 [], ReconnectDelayOver, SocketOpened 1, Message 1 (Some helloFrame)]"
    by (simp add: m_stalled_def m_reopened_def m_retrying_def m_closed_def m_ready_steps ws_run_def)
  have s: "socketState m_stalled = Some OPEN"
    by (simp add: socketState_def m_stalled_state)
  from run s ticks_stalled show ?thesis
    by (simp add: m_stalled_state m_ready_steps)
qed

subsection \<open>The public \<^verbatim>\<open>send\<close>\<close>

text \<open>
  Claim C10: a call of \<^verbatim>\<open>send\<close> while the socket is absent or not \<^verbatim>\<open>OPEN\<close> changes
  nothing but the log, which gets one warning: every field of the session is as it was,
  and nothing is handed to the socket. The function has no error result: it does not throw.
\<close>

theorem C10_send_without_open_socket_is_dropped:
  assumes "ws m = None \<or> socketState m \<noteq> Some OPEN"
  shows "ws_step client (CallSend payload) m =
           m\<lparr>trace := trace m @ [Log WARN ''Cannot send payload: WebSocket not connected'']\<rparr>
       \<and> sent (trace (ws_step client (CallSend payload) m)) = sent (trace m)"
  using assms by (auto simp: ws_step_def send_def logW_def)

theorem C10_send_without_open_socket_is_dropped_witness:
  "(ws newWebSocketManager = None \<or> socketState newWebSocketManager \<noteq> Some OPEN)
   \<and> ws_step wsClient5 (CallSend \<lparr>o_op = 3, o_d = OutOther ''presence''\<rparr>) newWebSocketManager =
       newWebSocketManager\<lparr>trace := [Log WARN ''Cannot send payload: WebSocket not connected'']\<rparr>
   \<and> sent (trace (ws_step wsClient5 (CallSend \<lparr>o_op = 3, o_d = OutOther ''presence''\<rparr>)
        newWebSocketManager)) = []
   \<and> ws m_connecting = Some 0 \<and> socketState m_connecting = Some CONNECTING
   \<and> sent (trace (ws_step wsClient5 (CallSend \<lparr>o_op = 3, o_d = OutOther ''presence''\<rparr>)
        m_connecting)) = []"
proof -
  have c: "ws m_connecting = Some 0" "socketState m_connecting = Some CONNECTING"
    "sent (trace m_connecting) = []"
    by (simp_all add: socketState_def m_connecting_state)
  from C10_send_without_open_socket_is_dropped [of newWebSocketManager wsClient5
      "\<lparr>o_op = 3, o_d = OutOther ''presence''\<rparr>"]
    C10_send_without_open_socket_is_dropped [of m_connecting wsClient5
      "\<lparr>o_op = 3, o_d = OutOther ''presence''\<rparr>"] c
  show ?thesis
    by (simp add: newWebSocketManager_def)
qed

subsection \<open>The sequence number\<close>

lemma sequence_dispatch:
  assumes "p_op p = DISPATCH" "hears m sid"
  shows "sequence (ws_step client (Message sid (Some p)) m) =
           (if p_s p \<noteq> JsNull then p_s p else sequence m)
       \<and> sockets (ws_step client (Message sid (Some p)) m) = sockets m"
  using assms
  by (auto simp: ws_step_def socket_message_def onMessage_def handlePayload_def handleDispatch_def
      handleReady_def hears_def emit_def effect_def logW_def Let_def
      split: InData.splits option.splits)

lemma sequence_dispatches:
  assumes "\<forall>p \<in> set ps. p_op p = DISPATCH" "hears m sid"
  shows "sequence (ws_run client m (map (\<lambda>p. Message sid (Some p)) ps)) = last_sequence (sequence m) ps"
  using assms
proof (induction ps arbitrary: m)
  case Nil
  then show ?case by (simp add: ws_run_def)
next
  case (Cons p ps)
  have h: "hears (ws_step client (Message sid (Some p)) m) sid"
    using sequence_dispatch [of p m sid client] Cons.prems by (simp add: hears_def)
  from Cons.IH [OF _ h] Cons.prems sequence_dispatch [of p m sid client] show ?case
    by (simp add: ws_run_Cons)
qed

lemma unheard:
  assumes "\<not> hears m sid"
  shows "ws_run client m (map (\<lambda>p. Message sid (Some p)) ps) = m"
  using assms
  by (induction ps) (auto simp: ws_run_def ws_step_def socket_message_def hears_def)

lemma last_sequence_increasing:
  assumes "ps \<noteq> []" and "\<forall>p \<in> set ps. is_number (p_s p)"
    and "sorted_wrt (<) (map (\<lambda>p. the_number (p_s p)) ps)"
  shows "last_sequence a ps = Number (Max (set (map (\<lambda>p. the_number (p_s p)) ps)))"
  using assms
proof (induction ps arbitrary: a)
  case Nil
  then show ?case by simp
next
  case (Cons p ps)
  obtain n where n: "p_s p = Number n"
    using Cons.prems(2) by (cases "p_s p") auto
  show ?case
  proof (cases "ps = []")
    case True
    with n show ?thesis by simp
  next
    case False
    have ih: "last_sequence (p_s p) ps = Number (Max (set (map (\<lambda>p. the_number (p_s p)) ps)))"
      using Cons.IH [OF False] Cons.prems by simp
    have lt: "\<forall>x \<in> set (map (\<lambda>p. the_number (p_s p)) ps). n < x"
      using Cons.prems(3) n by simp
    obtain q where q: "q \<in> set ps" using False by (cases ps) auto
    have "n < Max (set (map (\<lambda>p. the_number (p_s p)) ps))"
      using lt False q by (auto simp: Max_gr_iff)
    then have "Max (insert n (set (map (\<lambda>p. the_number (p_s p)) ps))) =
               Max (set (map (\<lambda>p. the_number (p_s p)) ps))"
      using False by (simp add: max_def)
    with ih n show ?thesis by simp
  qed
qed

lemma messageFrame_fields: "p_op (messageFrame sq) = DISPATCH \<and> p_s (messageFrame sq) = sq"
  by (simp add: messageFrame_def)

lemma hears_ready: "hears m_ready 0"
  by (simp add: hears_def m_ready_steps m_steady_state)

text \<open>
  Claim C1, as the spec has it: over any run of inbound dispatch frames the tracked
  sequence number is the maximum sequence seen; a frame whose sequence is lower than or
  equal to the stored one is ignored, a strictly greater one replaces it.

  \<^verbatim>\<open>handlePayload\<close> stores every \<^verbatim>\<open>s\<close> that is not \<^verbatim>\<open>null\<close> (lines 145-147) and compares
  nothing. After the frames 5 and 3 the stored sequence is 3; after the frame 5 and a
  frame that has no \<^verbatim>\<open>s\<close> it is \<^verbatim>\<open>undefined\<close>.
\<close>

theorem C1_counterexample:
  "sequence (ws_run wsClient5 m_ready
      [Message 0 (Some (messageFrame (Number 5))), Message 0 (Some (messageFrame (Number 3)))])
     = Number 3
   \<and> sequence (ws_run wsClient5 m_ready [Message 0 (Some (messageFrame (Number 5)))]) = Number 5
   \<and> sequence (ws_run wsClient5 m_ready
      [Message 0 (Some (messageFrame (Number 5))), Message 0 (Some (messageFrame Undefined))])
     = Undefined"
  using sequence_dispatches [of "[messageFrame (Number 5), messageFrame (Number 3)]" m_ready 0 wsClient5]
    sequence_dispatches [of "[messageFrame (Number 5)]" m_ready 0 wsClient5]
    sequence_dispatches [of "[messageFrame (Number 5), messageFrame Undefined]" m_ready 0 wsClient5]
    hears_ready
  by (simp add: messageFrame_fields)

text \<open>
  Claim C1, amended: over any run of dispatch frames that a socket delivers while the
  manager has its handlers on it, the tracked sequence is the field \<^verbatim>\<open>s\<close> of the latest
  frame whose \<^verbatim>\<open>s\<close> is not \<^verbatim>\<open>null\<close>, and the stored value when every frame has \<^verbatim>\<open>null\<close>
  there: every number replaces the stored value, be it greater, equal or lower, and a
  frame without the field \<^verbatim>\<open>s\<close> replaces it by \<^verbatim>\<open>undefined\<close>. When every frame carries a
  number and the numbers are strictly increasing, that is the maximum they carry. Frames
  of a socket the manager has no handlers on change nothing.
\<close>

theorem C1_sequence_is_latest_carried:
  assumes "\<forall>p \<in> set ps. p_op p = DISPATCH"
  shows "(hears m sid \<longrightarrow>
            sequence (ws_run client m (map (\<lambda>p. Message sid (Some p)) ps)) = last_sequence (sequence m) ps
          \<and> (ps \<noteq> [] \<and> (\<forall>p \<in> set ps. is_number (p_s p))
               \<and> sorted_wrt (<) (map (\<lambda>p. the_number (p_s p)) ps) \<longrightarrow>
             sequence (ws_run client m (map (\<lambda>p. Message sid (Some p)) ps)) =
               Number (Max (set (map (\<lambda>p. the_number (p_s p)) ps)))))
       \<and> (\<not> hears m sid \<longrightarrow> ws_run client m (map (\<lambda>p. Message sid (Some p)) ps) = m)"
  using sequence_dispatches [OF assms, of m sid client] last_sequence_increasing [of ps "sequence m"]
    unheard [of m sid client ps]
  by simp

theorem C1_sequence_is_latest_carried_witness:
  "p_op (messageFrame (Number 2)) = DISPATCH \<and> p_op (messageFrame (Number 7)) = DISPATCH
   \<and> p_op (messageFrame JsNull) = DISPATCH \<and> p_op (messageFrame Undefined) = DISPATCH
   \<and> hears m_ready 0
   \<and> [messageFrame (Number 2), messageFrame (Number 7)] \<noteq> []
   \<and> is_number (p_s (messageFrame (Number 2))) \<and> is_number (p_s (messageFrame (Number 7)))
   \<and> sorted_wrt (<) (map (\<lambda>p. the_number (p_s p)) [messageFrame (Number 2), messageFrame (Number 7)])
   \<and> sequence (ws_run wsClient5 m_ready
        (map (\<lambda>p. Message 0 (Some p)) [messageFrame (Number 2), messageFrame (Number 7)])) = Number 7
   \<and> sequence (ws_run wsClient5 m_ready
        (map (\<lambda>p. Message 0 (Some p)) [messageFrame (Number 2), messageFrame JsNull])) = Number 2
   \<and> sequence (ws_run wsClient5 m_ready
        (map (\<lambda>p. Message 0 (Some p)) [messageFrame (Number 2), messageFrame Undefined])) = Undefined
   \<and> \<not> hears m_ready 1
   \<and> ws_run wsClient5 m_ready (map (\<lambda>p. Message 1 (Some p)) [messageFrame (Number 2)]) = m_ready"
proof -
  have h: "hears m_ready 0" "\<not> hears m_ready 1"
    by (simp_all add: hears_def m_ready_steps m_steady_state)
  from C1_sequence_is_latest_carried [of "[messageFrame (Number 2), messageFrame (Number 7)]" m_ready 0 wsClient5]
    C1_sequence_is_latest_carried [of "[messageFrame (Number 2), messageFrame JsNull]" m_ready 0 wsClient5]
    C1_sequence_is_latest_carried [of "[messageFrame (Number 2), messageFrame Undefined]" m_ready 0 wsClient5]
    C1_sequence_is_latest_carried [of "[messageFrame (Number 2)]" m_ready 1 wsClient5]
    h
  show ?thesis
    by (simp add: messageFrame_fields)
qed

end
